theory Spec2Isabelle
  imports Main "HOL-Library.Sublist"
begin

section \<open>Errors and device connections\<close>

text \<open>
  Every error value the modelled functions create themselves has a constructor of its
  own; an error handed back by a collaborator (a vendor probe, the hint callback, a
  device call, the group lookup) is an \<open>ExternalError\<close> carrying its message.
\<close>

datatype error =
    ErrVendorUnknown
  | ScanAndConnectUnsuccessful
  | BmcLoginFailed string
  | ChassisLoginFailed string
  | UnrecognizedDeviceType
  | AllLoginAttemptsFailed
  | NoBmcConfiguration
  | UnknownAssetType
  | ExternalError string

text \<open>
  The dynamic type of a connection, in the order in which the type switches of
  \<open>attemptLogin\<close> and \<open>configureAsset\<close> test it.
\<close>

datatype devtype = Bmc | BmcChassis | Unrecognized

text \<open>
  The interface \<open>devices.Configure\<close>: what each call on the device returns. The
  sections handed over are rendered configuration text.
\<close>

record Configure =
  configure_Resources :: "string list"
  configure_User :: "string \<Rightarrow> error option"
  configure_Syslog :: "string \<Rightarrow> error option"
  configure_Ntp :: "string \<Rightarrow> error option"
  configure_Ldap :: "string \<Rightarrow> error option"
  configure_LdapGroups :: "string list \<Rightarrow> string \<Rightarrow> error option"
  configure_SetLicense :: "string \<Rightarrow> error option"
  configure_Network :: "string \<Rightarrow> bool \<times> error option"

text \<open>
  A connection is the value a probe returns; its fields are what the methods called on
  it answer (\<open>CheckCredentials()\<close>, \<open>IsActive()\<close>, \<open>BmcType()\<close>, \<open>Vendor()\<close>,
  \<open>Serial()\<close>, and the \<open>Configure\<close> interface it is asserted to).
\<close>

record connection =
  devType :: devtype
  conn_CheckCredentials :: "error option"
  conn_IsActive :: bool
  conn_BmcType :: string
  conn_Vendor :: string
  conn_Serial :: string
  conn_Configure :: Configure

section \<open>Discovery: \<open>discover.ScanAndConnect\<close> and \<open>swapProbe\<close>\<close>

definition ProbeHpIlo :: string where "ProbeHpIlo = ''hpilo''"
definition ProbeIdrac8 :: string where "ProbeIdrac8 = ''idrac8''"
definition ProbeIdrac9 :: string where "ProbeIdrac9 = ''idrac9''"
definition ProbeSupermicrox :: string where "ProbeSupermicrox = ''supermicrox''"
definition ProbeSupermicrox11 :: string where "ProbeSupermicrox11 = ''supermicrox11''"
definition ProbeHpC7000 :: string where "ProbeHpC7000 = ''hpc7000''"
definition ProbeM1000e :: string where "ProbeM1000e = ''m1000e''"
definition ProbeQuanta :: string where "ProbeQuanta = ''quanta''"
definition ProbeHpCl100 :: string where "ProbeHpCl100 = ''hpcl100''"

text \<open>The local slice \<open>order\<close> of \<open>ScanAndConnect\<close>, before any hint is applied.\<close>

definition probe_order :: "string list" where
  "probe_order =
     [ProbeHpIlo, ProbeIdrac8, ProbeIdrac9, ProbeSupermicrox11, ProbeSupermicrox,
      ProbeHpC7000, ProbeM1000e, ProbeQuanta, ProbeHpCl100]"

text \<open>
  \<open>swapProbe\<close>: the loop \<open>for i := range order\<close>, started at index \<open>i\<close>. At the first
  index holding the hint, the elements at \<open>0\<close> and \<open>i\<close> exchange places (Go evaluates
  both right-hand sides before assigning) and the loop breaks.
\<close>

function swapProbe_from :: "string list \<Rightarrow> string \<Rightarrow> nat \<Rightarrow> string list" where
  "swapProbe_from ord hint i =
     (if i < length ord then
        (if ord ! i = hint then ord[0 := ord ! i, i := ord ! 0]
         else swapProbe_from ord hint (i + 1))
      else ord)"
  by pat_completeness auto
termination
  by (relation "measure (\<lambda>(ord, hint, i). length ord - i)") auto

definition swapProbe :: "string list \<Rightarrow> string \<Rightarrow> string list" where
  "swapProbe ord hint = swapProbe_from ord hint 0"

record Options =
  Hint :: string
  HintCallback :: "string \<Rightarrow> error option"

definition WithProbeHint :: "string \<Rightarrow> Options \<Rightarrow> Options" where
  "WithProbeHint hint args = args\<lparr>Hint := hint\<rparr>"

definition WithHintCallBack :: "(string \<Rightarrow> error option) \<Rightarrow> Options \<Rightarrow> Options" where
  "WithHintCallBack fn args = args\<lparr>HintCallback := fn\<rparr>"

text \<open>
  What one call of \<open>ScanAndConnect\<close> meets outside the program: whether
  \<open>BMCLIB_TEST\<close> is \<open>1\<close> and what \<open>ibmc.New\<close> returns then, the error of
  \<open>httpclient.Build\<close> if any, and what each probe function of the map \<open>devices\<close>
  returns (a connection, possibly nil, and an error, possibly nil).
\<close>

record scan_env =
  bmclibTest :: bool
  ibmcNew :: "connection option \<times> error option"
  httpclientBuild :: "error option"
  devices :: "string \<Rightarrow> connection option \<times> error option"

text \<open>
  The loop \<open>for _, probeID := range order\<close>: a probe that errs is skipped; after a
  probe without error the hint callback runs, and its error ends the scan; a non-nil
  connection is returned; otherwise the next probe is tried.
\<close>

fun probeLoop ::
  "scan_env \<Rightarrow> Options \<Rightarrow> string list \<Rightarrow> connection option \<times> error option" where
  "probeLoop env opts [] = (None, Some ErrVendorUnknown)"
| "probeLoop env opts (probeID # rest) =
     (case devices env probeID of
        (bmcConnection, Some err) \<Rightarrow> probeLoop env opts rest
      | (bmcConnection, None) \<Rightarrow>
          (case HintCallback opts probeID of
             Some hintErr \<Rightarrow> (None, Some hintErr)
           | None \<Rightarrow>
               (case bmcConnection of
                  Some c \<Rightarrow> (Some c, None)
                | None \<Rightarrow> probeLoop env opts rest)))"

text \<open>
  \<open>ScanAndConnect\<close> with the initial contents of \<open>order\<close> as a parameter; the source
  fixes it to \<open>probe_order\<close>. \<open>buildOptions\<close> runs the option functions over the
  default options, and \<open>effectiveOrder\<close> is \<open>order\<close> as the probe loop finds it.
\<close>

definition buildOptions :: "(Options \<Rightarrow> Options) list \<Rightarrow> Options" where
  "buildOptions options =
     fold (\<lambda>optFn opts. optFn opts) options \<lparr>Hint = '''', HintCallback = (\<lambda>_. None)\<rparr>"

definition effectiveOrder :: "string list \<Rightarrow> Options \<Rightarrow> string list" where
  "effectiveOrder ord opts = (if Hint opts \<noteq> '''' then swapProbe ord (Hint opts) else ord)"

definition ScanAndConnect_from ::
  "string list \<Rightarrow> scan_env \<Rightarrow> (Options \<Rightarrow> Options) list
     \<Rightarrow> connection option \<times> error option" where
  "ScanAndConnect_from ord env options =
     (let opts = buildOptions options
      in if bmclibTest env then ibmcNew env
         else (case httpclientBuild env of
                 Some err \<Rightarrow> (None, Some err)
               | None \<Rightarrow> probeLoop env opts (effectiveOrder ord opts)))"

definition ScanAndConnect ::
  "scan_env \<Rightarrow> (Options \<Rightarrow> Options) list \<Rightarrow> connection option \<times> error option" where
  "ScanAndConnect env options = ScanAndConnect_from probe_order env options"

section \<open>Login: \<open>bmclogin.Params.Login\<close> and \<open>attemptLogin\<close>\<close>

text \<open>
  A credential map is the list of its entries in the order the \<open>range\<close> over it
  yields them (Go leaves that order open; every order is a possible list).
\<close>

record Params =
  IpAddresses :: "string list"
  Credentials :: "(string \<times> string) list list"
  CheckCredential :: bool
  Retries :: int

record LoginInfo =
  FailedCredentials :: "(string \<times> string) list list"
  WorkingCredentials :: "(string \<times> string) list"
  ActiveIpAddress :: string
  Attempts :: nat

text \<open>
  The network: what the \<open>n\<close>-th login attempt of one \<open>Login\<close> call meets when it
  scans \<open>ip\<close> with \<open>user\<close> and \<open>pass\<close>.
\<close>

type_synonym world = "nat \<Rightarrow> string \<Rightarrow> string \<Rightarrow> string \<Rightarrow> scan_env"

definition attemptLogin ::
  "Params \<Rightarrow> scan_env \<Rightarrow> string \<Rightarrow> string \<Rightarrow> string
     \<Rightarrow> connection option \<times> bool \<times> error option" where
  "attemptLogin p env ip user pass =
     (case ScanAndConnect env [] of
        (connection, Some err) \<Rightarrow> (connection, False, Some ScanAndConnectUnsuccessful)
      | (connection, None) \<Rightarrow>
          if \<not> CheckCredential p then (connection, False, None)
          else
            (case connection of
               None \<Rightarrow> (connection, False, Some UnrecognizedDeviceType)
             | Some c \<Rightarrow>
                 (case devType c of
                    Bmc \<Rightarrow>
                      (case conn_CheckCredentials c of
                         Some err \<Rightarrow> (connection, False, Some (BmcLoginFailed user))
                       | None \<Rightarrow> (connection, False, None))
                  | BmcChassis \<Rightarrow>
                      (case conn_CheckCredentials c of
                         Some err \<Rightarrow> (connection, False, Some (ChassisLoginFailed user))
                       | None \<Rightarrow>
                           if \<not> conn_IsActive c then (connection, True, None)
                           else (connection, False, None))
                  | Unrecognized \<Rightarrow> (connection, False, Some UnrecognizedDeviceType))))"

text \<open>
  The loops of \<open>Login\<close> thread the \<open>LoginInfo\<close> built so far together with the list
  of the calls of \<open>attemptLogin\<close> made so far (user, password, IP; oldest first). The
  list of calls is bookkeeping of the model, so that "this pair was tried" can be said;
  the source keeps only their number, in \<open>Attempts\<close>. A loop yields \<open>Inl\<close> when the
  source returns from inside it and \<open>Inr\<close> when it runs to its end or breaks.
\<close>

type_synonym call = "string \<times> string \<times> string"
type_synonym login_state = "LoginInfo \<times> call list"
type_synonym login_result = "(connection option \<times> LoginInfo \<times> error option) \<times> call list"

function retryLoop ::
  "Params \<Rightarrow> world \<Rightarrow> string \<Rightarrow> string \<Rightarrow> string \<Rightarrow> int \<Rightarrow> login_state
     \<Rightarrow> login_result + login_state" where
  "retryLoop p w user pass ip t (loginInfo, calls) =
     (if t \<le> Retries p then
        (let loginInfo1 = loginInfo\<lparr>Attempts := Attempts loginInfo + 1\<rparr>;
             calls1 = calls @ [(user, pass, ip)];
             (connection, ipInactive, err) =
                attemptLogin p (w (Attempts loginInfo1) ip user pass) ip user pass
         in if ipInactive then
              (if length (IpAddresses p) = 1 then
                 Inl ((connection, loginInfo1\<lparr>WorkingCredentials := [(user, pass)]\<rparr>, err),
                      calls1)
               else Inr (loginInfo1, calls1))
            else if err = None then
              Inl ((connection,
                    loginInfo1\<lparr>ActiveIpAddress := ip, WorkingCredentials := [(user, pass)]\<rparr>,
                    err), calls1)
            else
              retryLoop p w user pass ip (t + 1)
                (loginInfo1\<lparr>FailedCredentials :=
                    FailedCredentials loginInfo1 @ [[(user, pass)]]\<rparr>, calls1))
      else Inr (loginInfo, calls))"
  by pat_completeness auto
termination
  by (relation "measure (\<lambda>(p, w, user, pass, ip, t, s). nat (Retries p + 1 - t))") auto

fun ipLoop ::
  "Params \<Rightarrow> world \<Rightarrow> string \<Rightarrow> string \<Rightarrow> string list \<Rightarrow> login_state
     \<Rightarrow> login_result + login_state" where
  "ipLoop p w user pass [] s = Inr s"
| "ipLoop p w user pass (ip # ips) s =
     (if ip = '''' then ipLoop p w user pass ips s
      else
        (case retryLoop p w user pass ip 0 s of
           Inl r \<Rightarrow> Inl r
         | Inr s' \<Rightarrow> ipLoop p w user pass ips s'))"

fun entryLoop ::
  "Params \<Rightarrow> world \<Rightarrow> (string \<times> string) list \<Rightarrow> login_state
     \<Rightarrow> login_result + login_state" where
  "entryLoop p w [] s = Inr s"
| "entryLoop p w ((user, pass) # entries) s =
     (case ipLoop p w user pass (IpAddresses p) s of
        Inl r \<Rightarrow> Inl r
      | Inr s' \<Rightarrow> entryLoop p w entries s')"

fun credentialsLoop ::
  "Params \<Rightarrow> world \<Rightarrow> (string \<times> string) list list \<Rightarrow> login_state
     \<Rightarrow> login_result + login_state" where
  "credentialsLoop p w [] s = Inr s"
| "credentialsLoop p w (credentials # cs) s =
     (case entryLoop p w credentials s of
        Inl r \<Rightarrow> Inl r
      | Inr s' \<Rightarrow> credentialsLoop p w cs s')"

text \<open>
  \<open>Login\<close> with the calls it made. \<open>Retries\<close> of zero is first set to one, in the
  receiver itself. When the loops run out, the named result \<open>connection\<close> is still
  nil: the connections of the attempts live in variables of the loop body.
\<close>

definition Login_calls :: "Params \<Rightarrow> world \<Rightarrow> login_result" where
  "Login_calls p0 w =
     (let p = (if Retries p0 = 0 then p0\<lparr>Retries := 1\<rparr> else p0);
          loginInfo = \<lparr>FailedCredentials = [], WorkingCredentials = [],
                       ActiveIpAddress = '''', Attempts = 0\<rparr>
      in case credentialsLoop p w (Credentials p) (loginInfo, []) of
           Inl r \<Rightarrow> r
         | Inr (loginInfo', calls) \<Rightarrow>
             ((None, loginInfo', Some AllLoginAttemptsFailed), calls))"

definition Login :: "Params \<Rightarrow> world \<Rightarrow> connection option \<times> LoginInfo \<times> error option" where
  "Login p w = fst (Login_calls p w)"

section \<open>Assets and rendered configuration\<close>

text \<open>
  \<open>asset.Asset\<close>. \<open>configureAsset\<close> also writes a field \<open>Model\<close>, which the
  struct of \<open>pkg/asset\<close> does not declare (it has \<open>HardwareType\<close>); both are kept.
\<close>

record Asset =
  IPAddresses :: "string list"
  IPAddress :: string
  Serial :: string
  Vendor :: string
  HardwareType :: string
  Model :: string
  Type :: string
  Location :: string
  Setup :: bool
  Configure :: bool
  Execute :: bool
  Extra :: "(string \<times> string) list"

text \<open>
  \<open>cfgresources.ResourcesConfig\<close>: each section is a pointer, nil when the rendered
  configuration has no such section. The group section carries its \<open>Groups\<close> and what
  its method \<open>GetExtraGroups(serial, vendor)\<close> returns.
\<close>

record LdapGroupsSection =
  Groups :: "string list"
  GetExtraGroups :: "string \<Rightarrow> string \<Rightarrow> string \<times> error option"

record ResourcesConfig =
  User :: "string option"
  Syslog :: "string option"
  Ntp :: "string option"
  Ldap :: "string option"
  LdapGroups :: "LdapGroupsSection option"
  License :: "string option"
  Network :: "string option"
  SetupChassis :: "string option"

section \<open>Configuration apply: \<open>configure.Cmc.Apply\<close>\<close>

text \<open>
  \<open>stopChan b i\<close> says whether the goroutine started by \<open>Apply\<close> has set the local
  flag \<open>interrupt\<close> by the time iteration \<open>i\<close> (counted from 0) of the loop reads it.
  The fields \<open>ip\<close>, \<open>serial\<close>, \<open>vendor\<close>, \<open>hardwareType\<close> and \<open>logger\<close> of the
  struct only feed log records and are left out.
\<close>

record Cmc =
  asset :: Asset
  resources :: "string list"
  configure :: Configure
  config :: ResourcesConfig
  stopChan :: "nat \<Rightarrow> bool"

text \<open>The log records \<open>Apply\<close> writes, one constructor per message.\<close>

datatype log_entry =
    LogToBeApplied "string list"
  | LogReceivedInterrupt
  | LogUnknownResource string
  | LogExtraGroupsFailed error
  | LogReturnedErrors string error
  | LogResourceApplied string
  | LogFailedToApply "string list" "string list"
  | LogActionsSuccessful "string list"

record ApplyOutcome =
  success :: "string list"
  failed :: "string list"
  logged :: "log_entry list"

text \<open>
  The \<open>switch resource\<close> of the loop body: the value left in the loop body's variable
  \<open>err\<close>, and the records logged on the way. In the \<open>ldap_group\<close> case the statement
  \<open>o, err := ...GetExtraGroups(...)\<close> declares a second \<open>err\<close> inside the
  \<open>if\<close> block; the result of \<open>b.configure.LdapGroups(...)\<close> is assigned to that
  inner variable (\<open>errInner\<close> below), and the loop body's \<open>err\<close> keeps its nil.
\<close>

definition applyResource :: "Cmc \<Rightarrow> string \<Rightarrow> error option \<times> log_entry list" where
  "applyResource b resource =
     (if resource = ''user'' then
        (case User (config b) of
           Some sec \<Rightarrow> (configure_User (configure b) sec, [])
         | None \<Rightarrow> (None, []))
      else if resource = ''syslog'' then
        (case Syslog (config b) of
           Some sec \<Rightarrow> (configure_Syslog (configure b) sec, [])
         | None \<Rightarrow> (None, []))
      else if resource = ''ntp'' then
        (case Ntp (config b) of
           Some sec \<Rightarrow> (configure_Ntp (configure b) sec, [])
         | None \<Rightarrow> (None, []))
      else if resource = ''ldap'' then
        (case Ldap (config b) of
           Some sec \<Rightarrow> (configure_Ldap (configure b) sec, [])
         | None \<Rightarrow> (None, []))
      else if resource = ''ldap_group'' then
        (case (LdapGroups (config b), Ldap (config b)) of
           (Some groups, Some ldap) \<Rightarrow>
             (let (out, errInner) = GetExtraGroups groups (Serial (asset b)) (Vendor (asset b));
                  lg = (case errInner of
                          Some e \<Rightarrow> [LogExtraGroupsFailed e]
                        | None \<Rightarrow> []);
                  errInner = configure_LdapGroups (configure b) (Groups groups) ldap
              in (None, lg))
         | _ \<Rightarrow> (None, []))
      else if resource = ''license'' then
        (case License (config b) of
           Some sec \<Rightarrow> (configure_SetLicense (configure b) sec, [])
         | None \<Rightarrow> (None, []))
      else if resource = ''network'' then
        (case Network (config b) of
           Some sec \<Rightarrow> (snd (configure_Network (configure b) sec), [])
         | None \<Rightarrow> (None, []))
      else (None, [LogUnknownResource resource]))"

text \<open>
  The loop \<open>for _, resource := range resources\<close>, at iteration \<open>i\<close>: break when the
  interrupt flag is seen; otherwise run the switch and append the resource to
  \<open>failed\<close> when \<open>err\<close> is not nil and to \<open>success\<close> when it is.
\<close>

fun applyLoop :: "Cmc \<Rightarrow> nat \<Rightarrow> string list \<Rightarrow> ApplyOutcome \<Rightarrow> ApplyOutcome" where
  "applyLoop b i [] st = st"
| "applyLoop b i (resource # rest) st =
     (if stopChan b i then st\<lparr>logged := logged st @ [LogReceivedInterrupt]\<rparr>
      else
        (let (err, lg) = applyResource b resource;
             st1 = st\<lparr>logged := logged st @ lg\<rparr>;
             st2 = (case err of
                      Some e \<Rightarrow>
                        st1\<lparr>failed := failed st1 @ [resource],
                            logged := logged st1 @ [LogReturnedErrors resource e]\<rparr>
                    | None \<Rightarrow> st1\<lparr>success := success st1 @ [resource]\<rparr>)
         in applyLoop b (Suc i) rest
              (st2\<lparr>logged := logged st2 @ [LogResourceApplied resource]\<rparr>)))"

definition applyList :: "Cmc \<Rightarrow> string list" where
  "applyList b =
     (if length (resources b) > 0 then resources b else configure_Resources (configure b))"

definition Apply :: "Cmc \<Rightarrow> ApplyOutcome" where
  "Apply b =
     (let rs = applyList b;
          st = applyLoop b 0 rs \<lparr>success = [], failed = [], logged = [LogToBeApplied rs]\<rparr>
      in if length (failed st) > 0 then
           st\<lparr>logged := logged st @ [LogFailedToApply (success st) (failed st)]\<rparr>
         else st\<lparr>logged := logged st @ [LogActionsSuccessful (success st)]\<rparr>)"

definition NewCmcConfigurator ::
  "connection \<Rightarrow> Asset \<Rightarrow> string list \<Rightarrow> ResourcesConfig \<Rightarrow> (nat \<Rightarrow> bool) \<Rightarrow> Cmc" where
  "NewCmcConfigurator bmc a rs cfg stop =
     \<lparr>asset = a, resources = rs, configure = conn_Configure bmc, config = cfg,
      stopChan = stop\<rparr>"

section \<open>Dispatch: \<open>Butler.configureAsset\<close>, \<open>Butler.myLocation\<close>, \<open>Butler.msgHandler\<close>\<close>

text \<open>
  The fields of \<open>config.Params\<close> that the butler reads (the package is outside the
  source at hand); its \<open>Credentials\<close> and \<open>Resources\<close> are named
  \<open>ConfigCredentials\<close> and \<open>ConfigResources\<close> here.
\<close>

record ConfigParams =
  Locations :: "string list"
  IgnoreLocation :: bool
  DryRun :: bool
  ConfigCredentials :: "(string \<times> string) list list"
  ConfigResources :: "string list"

record Butler =
  Config :: ConfigParams
  interrupt :: bool

record Msg =
  Asset :: Asset
  AssetConfig :: string
  AssetSetup :: string
  AssetExecute :: string

text \<open>
  What the butler's collaborators answer: the network met by \<open>Login\<close>, the rendering
  of the configuration (\<open>resource.LoadConfigResources\<close>, nil when nothing applies),
  the observations of the stop channel made by \<open>Apply\<close>, and \<open>executeCommand\<close>,
  whose body is outside the source at hand.
\<close>

record Env =
  network :: world
  LoadConfigResources :: "string \<Rightarrow> Asset \<Rightarrow> ResourcesConfig option"
  stopObserved :: "nat \<Rightarrow> bool"
  executeCommand :: "string \<Rightarrow> Asset \<Rightarrow> error option \<times> Asset"

text \<open>
  \<open>configureAsset\<close> returns its error, the asset as it left it (the asset is passed
  by pointer), and the outcome of the chassis configurator's \<open>Apply\<close> when that ran.
  The server configurator (\<open>NewBmcConfigurator\<close>) and the one-time chassis setup
  (\<open>NewBmcChassisSetup\<close>) are outside the source at hand; they return nothing and
  their runs leave no mark here. The chassis configurator the caller constructs as
  \<open>NewBmcChassisConfigurator\<close> is the \<open>Cmc\<close> of \<open>chassis.go\<close>.
\<close>

definition configureAsset ::
  "Butler \<Rightarrow> Env \<Rightarrow> string \<Rightarrow> Asset \<Rightarrow> error option \<times> Asset \<times> ApplyOutcome option" where
  "configureAsset b env cfgBytes a =
     (if DryRun (Config b) then (None, a, None)
      else
        (let bmcConn = \<lparr>IpAddresses = IPAddresses a,
                        Credentials = ConfigCredentials (Config b),
                        CheckCredential = True, Retries = 1\<rparr>;
             (client, loginInfo, err) = Login bmcConn (network env)
         in case err of
              Some e \<Rightarrow> (Some e, a, None)
            | None \<Rightarrow>
                (let a1 = a\<lparr>IPAddress := ActiveIpAddress loginInfo\<rparr>
                 in case client of
                      None \<Rightarrow> (Some UnknownAssetType, a1, None)
                    | Some c \<Rightarrow>
                        (case devType c of
                           Bmc \<Rightarrow>
                             (let a2 = a1\<lparr>Type := ''server'', Model := conn_BmcType c,
                                         Vendor := conn_Vendor c, Serial := conn_Serial c\<rparr>
                              in case LoadConfigResources env cfgBytes a2 of
                                   None \<Rightarrow> (Some NoBmcConfiguration, a2, None)
                                 | Some renderedConfig \<Rightarrow> (err, a2, None))
                         | BmcChassis \<Rightarrow>
                             (let a2 = a1\<lparr>Type := ''chassis'', Model := conn_BmcType c,
                                         Vendor := conn_Vendor c, Serial := conn_Serial c\<rparr>
                              in case LoadConfigResources env cfgBytes a2 of
                                   None \<Rightarrow> (Some NoBmcConfiguration, a2, None)
                                 | Some renderedConfig \<Rightarrow>
                                     (err, a2,
                                      Some (Apply (NewCmcConfigurator c a2
                                              (ConfigResources (Config b)) renderedConfig
                                              (stopObserved env)))))
                         | Unrecognized \<Rightarrow> (Some UnknownAssetType, a1, None)))))"

fun myLocation_loop :: "string list \<Rightarrow> string \<Rightarrow> bool" where
  "myLocation_loop [] location = False"
| "myLocation_loop (l # ls) location = (if l = location then True else myLocation_loop ls location)"

definition myLocation :: "Butler \<Rightarrow> string \<Rightarrow> bool" where
  "myLocation b location = myLocation_loop (Locations (Config b)) location"

text \<open>
  The counters of the metrics library, by key, and \<open>metrics.IncrCounter\<close>.
\<close>

type_synonym counters = "string list \<Rightarrow> nat"

definition IncrCounter :: "counters \<Rightarrow> string list \<Rightarrow> nat \<Rightarrow> counters" where
  "IncrCounter m key n = m(key := m key + n)"

datatype action = ExecuteCommand string Asset | ConfigureAsset string Asset

text \<open>
  What one run of \<open>msgHandler\<close> leaves behind: the counters, the actions it invoked
  (\<open>executeCommand\<close> or \<open>configureAsset\<close>, with their arguments) and the messages
  it logged (the message of the location filter reads "won't" in the source, written
  "will not" here).
\<close>

record Handled =
  metrics :: counters
  invoked :: "action list"
  messages :: "string list"

definition msgHandler :: "Butler \<Rightarrow> Env \<Rightarrow> counters \<Rightarrow> Msg \<Rightarrow> Handled" where
  "msgHandler b env m0 msg =
     (if interrupt b then \<lparr>metrics = m0, invoked = [], messages = []\<rparr>
      else
        (let m1 = IncrCounter m0 [''butler'', ''asset_recvd''] 1;
             a = Asset msg
         in if length (IPAddresses a) = 0
               \<or> (length (IPAddresses a) = 1 \<and> IPAddresses a ! 0 = ''0.0.0.0'') then
              \<lparr>metrics = IncrCounter m1 [''butler'', ''asset_recvd_noip''] 1,
               invoked = [],
               messages = [''Asset was received by butler without any IP(s) info, skipped.'']\<rparr>
            else if Location a \<noteq> '''' \<and> \<not> myLocation b (Location a)
                    \<and> \<not> IgnoreLocation (Config b) then
              \<lparr>metrics = IncrCounter m1 [''butler'', ''asset_recvd_location_unmanaged''] 1,
               invoked = [],
               messages = [''Butler will not manage asset based on its current location.'']\<rparr>
            else if Execute a then
              (case fst (executeCommand env (AssetExecute msg) a) of
                 Some err \<Rightarrow>
                   \<lparr>metrics = IncrCounter m1 [''butler'', ''execute_fail''] 1,
                    invoked = [ExecuteCommand (AssetExecute msg) a],
                    messages = [''Execute action returned error.'']\<rparr>
               | None \<Rightarrow>
                   \<lparr>metrics = IncrCounter m1 [''butler'', ''execute_success''] 1,
                    invoked = [ExecuteCommand (AssetExecute msg) a],
                    messages = [''Execute action succeeded.'']\<rparr>)
            else if Configure a then
              (case fst (configureAsset b env (AssetConfig msg) a) of
                 Some err \<Rightarrow>
                   \<lparr>metrics = IncrCounter m1 [''butler'', ''configure_fail''] 1,
                    invoked = [ConfigureAsset (AssetConfig msg) a],
                    messages = [''Configure action returned error.'']\<rparr>
               | None \<Rightarrow>
                   \<lparr>metrics = IncrCounter m1 [''butler'', ''configure_success''] 1,
                    invoked = [ConfigureAsset (AssetConfig msg) a],
                    messages = [''Configure action succeeded.'']\<rparr>)
            else
              \<lparr>metrics = m1, invoked = [],
               messages = [''Unknown action request on asset.'']\<rparr>))"

section \<open>Notions used to state the properties\<close>

text \<open>
  The resources for which the loop of \<open>Apply\<close> ran its body to the end, read off the
  log: each such iteration ends with the record "Resource configuration applied.".
\<close>

fun appliedResources :: "log_entry list \<Rightarrow> string list" where
  "appliedResources [] = []"
| "appliedResources (LogResourceApplied r # es) = r # appliedResources es"
| "appliedResources (e # es) = appliedResources es"

text \<open>
  The section of the rendered configuration that the \<open>switch\<close> of \<open>Apply\<close> tests
  for a resource name is nil.
\<close>

definition sectionNil :: "ResourcesConfig \<Rightarrow> string \<Rightarrow> bool" where
  "sectionNil cfg resource =
     (resource = ''user'' \<and> User cfg = None
      \<or> resource = ''syslog'' \<and> Syslog cfg = None
      \<or> resource = ''ntp'' \<and> Ntp cfg = None
      \<or> resource = ''ldap'' \<and> Ldap cfg = None
      \<or> resource = ''ldap_group'' \<and> LdapGroups cfg = None
      \<or> resource = ''license'' \<and> License cfg = None
      \<or> resource = ''network'' \<and> Network cfg = None)"

definition allNil :: "ResourcesConfig \<Rightarrow> bool" where
  "allNil cfg =
     (User cfg = None \<and> Syslog cfg = None \<and> Ntp cfg = None \<and> Ldap cfg = None
      \<and> LdapGroups cfg = None \<and> License cfg = None \<and> Network cfg = None
      \<and> SetupChassis cfg = None)"

text \<open>
  A chassis controller that passes the credential check and reports itself active or
  not.
\<close>

definition chassisController :: "bool \<Rightarrow> connection \<Rightarrow> bool" where
  "chassisController active c =
     (devType c = BmcChassis \<and> conn_CheckCredentials c = None \<and> conn_IsActive c = active)"

text \<open>
  An attempt succeeded: \<open>attemptLogin\<close> returned a nil error and did not flag the IP
  as inactive.
\<close>

definition accepted :: "connection option \<times> bool \<times> error option \<Rightarrow> bool" where
  "accepted r = (\<not> fst (snd r) \<and> snd (snd r) = None)"

text \<open>
  What \<open>attemptLogin\<close> returned at the call number \<open>i\<close> (counted from 0) of a list
  of calls: that call is the attempt number \<open>i + 1\<close>.
\<close>

definition attemptAt ::
  "Params \<Rightarrow> world \<Rightarrow> call list \<Rightarrow> nat \<Rightarrow> connection option \<times> bool \<times> error option" where
  "attemptAt p w calls i =
     (case calls ! i of
        (user, pass, ip) \<Rightarrow> attemptLogin p (w (Suc i) ip user pass) ip user pass)"

text \<open>
  Two conditions on what the loops of \<open>Login\<close> hold or return. While the search goes
  on, \<open>Attempts\<close> counts the calls made, none of them succeeded and none was made
  on an empty IP string. When \<open>Login\<close>
  returns from inside its loops, the last call made is the one it returns on: the
  error is nil, the connection is that call's, its credential is recorded as working,
  and, when that call succeeded, its IP is recorded as active.
\<close>

definition allRejected :: "Params \<Rightarrow> world \<Rightarrow> call list \<Rightarrow> bool" where
  "allRejected p w calls = (\<forall>i<length calls. \<not> accepted (attemptAt p w calls i))"

definition searching :: "Params \<Rightarrow> world \<Rightarrow> login_state \<Rightarrow> bool" where
  "searching p w s =
     (Attempts (fst s) = length (snd s) \<and> allRejected p w (snd s)
      \<and> (\<forall>c\<in>set (snd s). snd (snd c) \<noteq> []))"

definition returned :: "Params \<Rightarrow> world \<Rightarrow> login_result \<Rightarrow> bool" where
  "returned p w r =
     (case r of
        ((conn, li, err), calls) \<Rightarrow>
          calls \<noteq> [] \<and> Attempts li = length calls \<and> allRejected p w (butlast calls)
          \<and> (\<forall>c\<in>set calls. snd (snd c) \<noteq> [])
          \<and> err = None
          \<and> conn = fst (attemptAt p w calls (length calls - 1))
          \<and> WorkingCredentials li = [(fst (last calls), fst (snd (last calls)))]
          \<and> (accepted (attemptAt p w calls (length calls - 1))
               \<longrightarrow> ActiveIpAddress li = snd (snd (last calls))))"

text \<open>
  The credential \<open>\<times>\<close> IP \<open>\<times>\<close> retry matrix in the order of the loops of \<open>Login\<close>:
  every entry of every credential map, on every non-empty IP, \<open>Retries + 1\<close> times
  (the retry loop runs \<open>t\<close> from \<open>0\<close> up to and including \<open>Retries\<close>).
  \<open>effectiveParams\<close> are the parameters after \<open>Login\<close> has replaced a \<open>Retries\<close>
  of zero by one.
\<close>

definition pairRow :: "Params \<Rightarrow> string \<Rightarrow> string \<Rightarrow> string \<Rightarrow> call list" where
  "pairRow p user pass ip = replicate (nat (Retries p + 1)) (user, pass, ip)"

definition entryRows :: "Params \<Rightarrow> string \<Rightarrow> string \<Rightarrow> string list \<Rightarrow> call list" where
  "entryRows p user pass ips =
     concat (map (pairRow p user pass) (filter (\<lambda>ip. ip \<noteq> '''') ips))"

definition credentialRows :: "Params \<Rightarrow> (string \<times> string) list \<Rightarrow> call list" where
  "credentialRows p entries =
     concat (map (\<lambda>(user, pass). entryRows p user pass (IpAddresses p)) entries)"

definition retryMatrix :: "Params \<Rightarrow> call list" where
  "retryMatrix p = concat (map (credentialRows p) (Credentials p))"

definition effectiveParams :: "Params \<Rightarrow> Params" where
  "effectiveParams p = (if Retries p = 0 then p\<lparr>Retries := 1\<rparr> else p)"

text \<open>
  A loop has extended the list of calls by calls taken in order from a part of the
  matrix; no call from position \<open>k\<close> on was answered by an inactive controller.
\<close>

definition extendsWithin :: "call list \<Rightarrow> call list \<Rightarrow> call list \<Rightarrow> bool" where
  "extendsWithin calls calls' m = (\<exists>ext. calls' = calls @ ext \<and> subseq ext m)"

definition noneInactiveFrom :: "Params \<Rightarrow> world \<Rightarrow> nat \<Rightarrow> call list \<Rightarrow> bool" where
  "noneInactiveFrom p w k calls =
     (\<forall>i<length calls. k \<le> i \<longrightarrow> \<not> fst (snd (attemptAt p w calls i)))"

section \<open>Sample devices and networks\<close>

text \<open>Concrete values on which the theorems below are exercised.\<close>

definition sampleConfigure :: Configure where
  "sampleConfigure =
     \<lparr>configure_Resources = [''user'', ''syslog'', ''ntp'', ''ldap'', ''ldap_group'',
                               ''license'', ''network''],
      configure_User = (\<lambda>_. None),
      configure_Syslog = (\<lambda>_. None),
      configure_Ntp = (\<lambda>_. None),
      configure_Ldap = (\<lambda>_. None),
      configure_LdapGroups = (\<lambda>_ _. Some (ExternalError ''ldap groups rejected'')),
      configure_SetLicense = (\<lambda>_. None),
      configure_Network = (\<lambda>_. (False, Some (ExternalError ''network rejected'')))\<rparr>"

definition sampleChassis :: "bool \<Rightarrow> connection" where
  "sampleChassis active =
     \<lparr>devType = BmcChassis, conn_CheckCredentials = None, conn_IsActive = active,
      conn_BmcType = ''c7000'', conn_Vendor = ''HP'', conn_Serial = ''CZ1'',
      conn_Configure = sampleConfigure\<rparr>"

text \<open>A host on which exactly the probe \<open>probeID\<close> answers, with connection \<open>c\<close>.\<close>

definition hostAnswering :: "string \<Rightarrow> connection \<Rightarrow> scan_env" where
  "hostAnswering probeID c =
     \<lparr>bmclibTest = False, ibmcNew = (None, None), httpclientBuild = None,
      devices = (\<lambda>k. if k = probeID then (Some c, None)
                      else (None, Some (ExternalError ''no match'')))\<rparr>"

text \<open>A host on which every probe fails.\<close>

definition hostSilent :: scan_env where
  "hostSilent =
     \<lparr>bmclibTest = False, ibmcNew = (None, None), httpclientBuild = None,
      devices = (\<lambda>k. (None, Some (ExternalError ''no match'')))\<rparr>"

definition neverStopped :: "nat \<Rightarrow> bool" where
  "neverStopped i = False"

text \<open>The stop signal is seen from iteration \<open>k\<close> on.\<close>

definition stoppedFrom :: "nat \<Rightarrow> nat \<Rightarrow> bool" where
  "stoppedFrom k i = (k \<le> i)"

definition sampleAsset :: Asset where
  "sampleAsset =
     \<lparr>IPAddresses = [''10.0.0.1''], IPAddress = '''', Serial = ''ABC123'', Vendor = '''',
      HardwareType = '''', Model = '''', Type = ''chassis'', Location = ''ams4'',
      Setup = False, Configure = True, Execute = False, Extra = []\<rparr>"

definition nilConfig :: ResourcesConfig where
  "nilConfig =
     \<lparr>User = None, Syslog = None, Ntp = None, Ldap = None, LdapGroups = None,
      License = None, Network = None, SetupChassis = None\<rparr>"

text \<open>
  A rendered configuration with user, ldap, ldap group and network sections; the group
  lookup of its group section fails.
\<close>

definition sampleGroups :: LdapGroupsSection where
  "sampleGroups =
     \<lparr>Groups = [''admins''],
      GetExtraGroups = (\<lambda>serial vendor. ('''', Some (ExternalError ''lookup failed'')))\<rparr>"

definition sampleConfig :: ResourcesConfig where
  "sampleConfig =
     \<lparr>User = Some ''users'', Syslog = None, Ntp = None, Ldap = Some ''ldap'',
      LdapGroups = Some sampleGroups, License = None, Network = Some ''network'',
      SetupChassis = None\<rparr>"

definition sampleCmc :: "string list \<Rightarrow> ResourcesConfig \<Rightarrow> (nat \<Rightarrow> bool) \<Rightarrow> Cmc" where
  "sampleCmc rs cfg stop = NewCmcConfigurator (sampleChassis True) sampleAsset rs cfg stop"

definition sampleParams :: "string list \<Rightarrow> bool \<Rightarrow> ConfigParams" where
  "sampleParams locations ignore =
     \<lparr>Locations = locations, IgnoreLocation = ignore, DryRun = False,
      ConfigCredentials = [[(''admin'', ''pass'')]], ConfigResources = []\<rparr>"

text \<open>An environment in which no host answers and commands succeed.\<close>

definition sampleEnv :: Env where
  "sampleEnv =
     \<lparr>network = (\<lambda>n ip user pass. hostSilent),
      LoadConfigResources = (\<lambda>cfgBytes a. None),
      stopObserved = neverStopped,
      executeCommand = (\<lambda>cmd a. (None, a))\<rparr>"

definition sampleMsg :: "string list \<Rightarrow> string \<Rightarrow> bool \<Rightarrow> Msg" where
  "sampleMsg ips location exec =
     \<lparr>Asset = sampleAsset\<lparr>IPAddresses := ips, Location := location, Execute := exec\<rparr>,
      AssetConfig = ''config'', AssetSetup = '''', AssetExecute = ''power-cycle''\<rparr>"

definition noCounts :: counters where
  "noCounts key = 0"

text \<open>
  A network of chassis controllers: the controller at \<open>activeIp\<close> is active, every
  other address answers as an inactive controller; all are found by the \<open>hpc7000\<close>
  probe.
\<close>

definition chassisNetwork :: "string \<Rightarrow> world" where
  "chassisNetwork activeIp n ip user pass =
     hostAnswering ProbeHpC7000 (sampleChassis (ip = activeIp))"

text \<open>A network in which no host answers.\<close>

definition silentNetwork :: world where
  "silentNetwork n ip user pass = hostSilent"

definition sampleLogin :: "string list \<Rightarrow> Params" where
  "sampleLogin ips =
     \<lparr>IpAddresses = ips, Credentials = [[(''admin'', ''pass'')]],
      CheckCredential = True, Retries = 1\<rparr>"

section \<open>Probe hinting\<close>

lemma swapProbe_probe_order_idrac9:
  "swapProbe probe_order ProbeIdrac9 =
     [ProbeIdrac9, ProbeIdrac8, ProbeHpIlo, ProbeSupermicrox11, ProbeSupermicrox,
      ProbeHpC7000, ProbeM1000e, ProbeQuanta, ProbeHpCl100]"
  by (simp add: swapProbe_def probe_order_def ProbeHpIlo_def ProbeIdrac8_def ProbeIdrac9_def)

text \<open>
  Claim C3, as stated, at the catalog \<open>[A, B, C]\<close> with hint \<open>C\<close>: the order in
  which \<open>ScanAndConnect\<close> tries the probes is not \<open>[C, A, B]\<close>.
\<close>

theorem C3_counterexample:
  "effectiveOrder [''A'', ''B'', ''C''] (buildOptions [WithProbeHint ''C''])
     \<noteq> [''C'', ''A'', ''B'']"
  by (simp add: effectiveOrder_def buildOptions_def WithProbeHint_def swapProbe_def)

text \<open>
  Claim C3, amended: for a catalog \<open>[A, B, C]\<close> and hint \<open>C\<close>, the order tried is
  \<open>[C, B, A]\<close>: the hinted probe exchanges places with the first probe, and the
  probes between them stay where they are. If the hinted probe fails, probing goes on
  with the remaining probes in that order, \<open>B\<close> and then \<open>A\<close>.
\<close>

theorem C3_hint_exchanged_with_first:
  assumes "A \<noteq> C" and "B \<noteq> C" and "C \<noteq> ''''" and "Hint (buildOptions options) = C"
  shows "effectiveOrder [A, B, C] (buildOptions options) = [C, B, A]
         \<and> (\<not> bmclibTest env \<and> httpclientBuild env = None \<and> snd (devices env C) \<noteq> None
              \<longrightarrow> ScanAndConnect_from [A, B, C] env options
                    = probeLoop env (buildOptions options) [B, A])"
proof -
  have ord: "effectiveOrder [A, B, C] (buildOptions options) = [C, B, A]"
    using assms by (simp add: effectiveOrder_def swapProbe_def)
  have "ScanAndConnect_from [A, B, C] env options
          = probeLoop env (buildOptions options) [B, A]"
    if h: "\<not> bmclibTest env" "httpclientBuild env = None" "snd (devices env C) \<noteq> None"
  proof -
    obtain conn e where "devices env C = (conn, Some e)"
      using h(3) by (cases "devices env C") auto
    then show ?thesis
      using h(1,2) ord by (simp add: ScanAndConnect_from_def Let_def)
  qed
  with ord show ?thesis by blast
qed

theorem C3_hint_exchanged_with_first_witness:
  "effectiveOrder [''A'', ''B'', ''C''] (buildOptions [WithProbeHint ''C''])
     = [''C'', ''B'', ''A'']
   \<and> ScanAndConnect_from [''A'', ''B'', ''C''] (hostAnswering ''A'' (sampleChassis True))
        [WithProbeHint ''C'']
     = (Some (sampleChassis True), None)"
proof -
  have h: "Hint (buildOptions [WithProbeHint ''C'']) = ''C''"
    by (simp add: buildOptions_def WithProbeHint_def)
  have env: "\<not> bmclibTest (hostAnswering ''A'' (sampleChassis True))
             \<and> httpclientBuild (hostAnswering ''A'' (sampleChassis True)) = None
             \<and> snd (devices (hostAnswering ''A'' (sampleChassis True)) ''C'') \<noteq> None"
    by (simp add: hostAnswering_def)
  have "probeLoop (hostAnswering ''A'' (sampleChassis True))
          (buildOptions [WithProbeHint ''C'']) [''B'', ''A'']
        = (Some (sampleChassis True), None)"
    by (simp add: hostAnswering_def buildOptions_def WithProbeHint_def)
  then show ?thesis
    using C3_hint_exchanged_with_first [of "''A''" "''C''" "''B''" "[WithProbeHint ''C'']"
            "hostAnswering ''A'' (sampleChassis True)", OF _ _ _ h] env
    by simp
qed

section \<open>Configuration apply\<close>

lemma appliedResources_append:
  "appliedResources (xs @ ys) = appliedResources xs @ appliedResources ys"
  by (induction xs rule: appliedResources.induct) auto

lemma appliedResources_applyResource:
  "appliedResources (snd (applyResource b r)) = []"
  by (auto simp: applyResource_def Let_def split: option.splits prod.splits)

text \<open>
  When the flag is first seen at iteration \<open>i + k\<close>, or not at all (\<open>k\<close> the length
  of the list), the loop has classified exactly the first \<open>k\<close> resources, each by the
  error its switch left.
\<close>

lemma applyLoop_prefix:
  assumes "k \<le> length rs" and "\<forall>j<k. \<not> stopChan b (i + j)"
    and "k < length rs \<longrightarrow> stopChan b (i + k)"
  shows "success (applyLoop b i rs st)
           = success st @ filter (\<lambda>r. fst (applyResource b r) = None) (take k rs)
         \<and> failed (applyLoop b i rs st)
           = failed st @ filter (\<lambda>r. fst (applyResource b r) \<noteq> None) (take k rs)
         \<and> appliedResources (logged (applyLoop b i rs st))
           = appliedResources (logged st) @ take k rs"
  using assms
proof (induction rs arbitrary: i k st)
  case Nil
  then show ?case by simp
next
  case (Cons r rs)
  show ?case
  proof (cases k)
    case 0
    with Cons.prems show ?thesis by (simp add: appliedResources_append)
  next
    case (Suc k')
    from Cons.prems Suc have ns: "\<not> stopChan b i" by force
    have a: "k' \<le> length rs" using Cons.prems Suc by simp
    have b: "\<forall>j<k'. \<not> stopChan b (Suc i + j)" using Cons.prems(2) Suc by auto
    have c: "k' < length rs \<longrightarrow> stopChan b (Suc i + k')" using Cons.prems(3) Suc by auto
    note IH = Cons.IH [OF a b c]
    obtain err lg where ar: "applyResource b r = (err, lg)" by (cases "applyResource b r")
    have lg: "appliedResources lg = []" using appliedResources_applyResource [of b r] ar by simp
    show ?thesis
      using ns Suc ar lg
      by (cases err) (simp_all add: IH appliedResources_append)
  qed
qed

lemma Apply_lists:
  "success (Apply b) = success (applyLoop b 0 (applyList b)
       \<lparr>success = [], failed = [], logged = [LogToBeApplied (applyList b)]\<rparr>)"
  "failed (Apply b) = failed (applyLoop b 0 (applyList b)
       \<lparr>success = [], failed = [], logged = [LogToBeApplied (applyList b)]\<rparr>)"
  "appliedResources (logged (Apply b)) = appliedResources (logged (applyLoop b 0 (applyList b)
       \<lparr>success = [], failed = [], logged = [LogToBeApplied (applyList b)]\<rparr>))"
  by (simp_all add: Apply_def Let_def appliedResources_append)

lemma Apply_prefix:
  assumes "k \<le> length (applyList b)" and "\<forall>j<k. \<not> stopChan b j"
    and "k < length (applyList b) \<longrightarrow> stopChan b k"
  shows "success (Apply b) = filter (\<lambda>r. fst (applyResource b r) = None) (take k (applyList b))"
    and "failed (Apply b) = filter (\<lambda>r. fst (applyResource b r) \<noteq> None) (take k (applyList b))"
    and "appliedResources (logged (Apply b)) = take k (applyList b)"
  using applyLoop_prefix [of k "applyList b" b 0
          "\<lparr>success = [], failed = [], logged = [LogToBeApplied (applyList b)]\<rparr>"] assms
  by (simp_all add: Apply_lists)

lemma first_stop:
  obtains k where "k \<le> n" and "\<forall>j<k. \<not> P j" and "k < n \<longrightarrow> P (k::nat)"
proof (cases "\<exists>j<n. P j")
  case True
  define k where "k = (LEAST j. j < n \<and> P j)"
  from True obtain j where "j < n \<and> P j" by blast
  then have kk: "k < n \<and> P k" unfolding k_def by (rule LeastI)
  have "\<forall>j<k. \<not> P j"
  proof (intro allI impI)
    fix j assume "j < k"
    then have "\<not> (j < n \<and> P j)" unfolding k_def by (rule not_less_Least)
    then show "\<not> P j" using \<open>j < k\<close> kk by auto
  qed
  with kk show ?thesis using that [of k] by auto
next
  case False
  then show ?thesis using that [of n] by auto
qed

lemma sectionNil_no_error: "sectionNil (config b) r \<Longrightarrow> fst (applyResource b r) = None"
  unfolding sectionNil_def
  by (elim disjE conjE) (simp_all add: applyResource_def)

lemma allNil_no_error: "allNil (config b) \<Longrightarrow> fst (applyResource b r) = None"
  by (simp add: allNil_def applyResource_def)

lemma ldap_group_no_error: "fst (applyResource b ''ldap_group'') = None"
  by (simp add: applyResource_def Let_def split: option.splits prod.splits)

lemma sampleCmc_simps:
  "applyList (sampleCmc (r # rs) cfg stop) = r # rs"
  "config (sampleCmc rs' cfg stop) = cfg"
  "stopChan (sampleCmc rs' cfg stop) = stop"
  "asset (sampleCmc rs' cfg stop) = sampleAsset"
  "configure (sampleCmc rs' cfg stop) = sampleConfigure"
  by (simp_all add: sampleCmc_def NewCmcConfigurator_def applyList_def sampleChassis_def)

text \<open>
  Claim C1, as stated, at the apply list \<open>[ntp]\<close> and a resource configuration in
  which every section is nil: the succeeded list is not empty, it holds \<open>ntp\<close>.
\<close>

theorem C1_counterexample:
  "allNil (config (sampleCmc [''ntp''] nilConfig neverStopped))
   \<and> success (Apply (sampleCmc [''ntp''] nilConfig neverStopped)) = [''ntp'']"
  by (simp add: Apply_def Let_def sampleCmc_simps applyResource_def nilConfig_def
        neverStopped_def allNil_def)

text \<open>
  Claim C1, amended: a resource whose section of the resource configuration is nil is
  never recorded in the failed list, and unless \<open>Apply\<close> is interrupted before
  reaching it (the interrupt flag is seen at its own iteration or an earlier one), it
  is recorded in the succeeded list: its apply call is skipped, and the skipped call
  counts as no error. In particular, for a resource configuration in which every
  section is nil, the failed list is empty and the succeeded list holds the resources
  reached before the interrupt; an uninterrupted \<open>Apply\<close> produces the whole apply
  list as its succeeded list.
\<close>

theorem C1_nil_section_counts_as_success:
  "(\<forall>r. sectionNil (config b) r \<longrightarrow> r \<notin> set (failed (Apply b)))
   \<and> (allNil (config b) \<longrightarrow> failed (Apply b) = [])
   \<and> (\<forall>j<length (applyList b).
         (\<forall>i\<le>j. \<not> stopChan b i) \<and> sectionNil (config b) (applyList b ! j)
         \<longrightarrow> applyList b ! j \<in> set (success (Apply b)))
   \<and> (\<forall>n\<le>length (applyList b).
         allNil (config b) \<and> (\<forall>i<n. \<not> stopChan b i)
         \<and> (n < length (applyList b) \<longrightarrow> stopChan b n)
         \<longrightarrow> success (Apply b) = take n (applyList b))
   \<and> ((\<forall>i<length (applyList b). \<not> stopChan b i) \<and> allNil (config b)
         \<longrightarrow> success (Apply b) = applyList b)"
proof -
  obtain k where k: "k \<le> length (applyList b)" "\<forall>j<k. \<not> stopChan b j"
      "k < length (applyList b) \<longrightarrow> stopChan b k"
    by (rule first_stop [of "length (applyList b)" "stopChan b"])
  note P = Apply_prefix [OF k]
  have 1: "\<forall>r. sectionNil (config b) r \<longrightarrow> r \<notin> set (failed (Apply b))"
    by (simp add: P(2) sectionNil_no_error)
  have 2: "allNil (config b) \<longrightarrow> failed (Apply b) = []"
    by (simp add: P(2) allNil_no_error)
  have 3: "applyList b ! j \<in> set (success (Apply b))"
    if j: "j < length (applyList b)" and ns: "\<forall>i\<le>j. \<not> stopChan b i"
      and nil: "sectionNil (config b) (applyList b ! j)" for j
  proof -
    have "j < k"
    proof (rule ccontr)
      assume "\<not> j < k"
      then have "k \<le> j" by simp
      with j k(3) have "stopChan b k" by simp
      with ns \<open>k \<le> j\<close> show False by simp
    qed
    with j have "applyList b ! j \<in> set (take k (applyList b))"
      by (auto simp: in_set_conv_nth intro!: exI [of _ j])
    with nil show ?thesis by (simp add: P(1) sectionNil_no_error)
  qed
  have 4: "success (Apply b) = take n (applyList b)"
    if "n \<le> length (applyList b)" and "allNil (config b)" and "\<forall>i<n. \<not> stopChan b i"
      and "n < length (applyList b) \<longrightarrow> stopChan b n" for n
    using Apply_prefix(1) [OF that(1) that(3) that(4)] that(2)
    by (simp add: allNil_no_error)
  have 5: "success (Apply b) = applyList b"
    if "\<forall>i<length (applyList b). \<not> stopChan b i" and "allNil (config b)"
    using 4 [of "length (applyList b)"] that by simp
  from 1 2 3 4 5 show ?thesis by blast
qed

theorem C1_nil_section_counts_as_success_witness:
  "sectionNil (config (sampleCmc [''ntp'', ''user''] nilConfig (stoppedFrom 1))) ''ntp''
   \<and> allNil (config (sampleCmc [''ntp'', ''user''] nilConfig (stoppedFrom 1)))
   \<and> stopChan (sampleCmc [''ntp'', ''user''] nilConfig (stoppedFrom 1)) 1
   \<and> ''ntp'' \<notin> set (failed (Apply (sampleCmc [''ntp'', ''user''] nilConfig (stoppedFrom 1))))
   \<and> ''ntp'' \<in> set (success (Apply (sampleCmc [''ntp'', ''user''] nilConfig (stoppedFrom 1))))
   \<and> failed (Apply (sampleCmc [''ntp'', ''user''] nilConfig (stoppedFrom 1))) = []
   \<and> success (Apply (sampleCmc [''ntp'', ''user''] nilConfig (stoppedFrom 1))) = [''ntp'']
   \<and> success (Apply (sampleCmc [''ntp'', ''user''] nilConfig neverStopped))
      = [''ntp'', ''user'']"
proof -
  let ?b = "sampleCmc [''ntp'', ''user''] nilConfig (stoppedFrom 1)"
  let ?c = "sampleCmc [''ntp'', ''user''] nilConfig neverStopped"
  have h1: "sectionNil (config ?b) ''ntp''"
    by (simp add: sampleCmc_simps sectionNil_def nilConfig_def)
  have h2: "allNil (config ?b)" and h2c: "allNil (config ?c)"
    by (simp_all add: sampleCmc_simps allNil_def nilConfig_def)
  have h3: "0 < length (applyList ?b)" and h3': "Suc 0 \<le> length (applyList ?b)"
    by (simp_all add: sampleCmc_simps)
  have h4: "\<forall>i\<le>0. \<not> stopChan ?b i" and h4': "\<forall>i<Suc 0. \<not> stopChan ?b i"
    by (simp_all add: sampleCmc_simps stoppedFrom_def)
  have h5: "sectionNil (config ?b) (applyList ?b ! 0)"
    by (simp add: sampleCmc_simps sectionNil_def nilConfig_def)
  have h6: "stopChan ?b 1" and h6': "Suc 0 < length (applyList ?b) \<longrightarrow> stopChan ?b (Suc 0)"
    by (simp_all add: sampleCmc_simps stoppedFrom_def)
  have h7: "\<forall>i<length (applyList ?c). \<not> stopChan ?c i"
    by (simp add: sampleCmc_simps neverStopped_def)
  note T = C1_nil_section_counts_as_success [of ?b]
  note U = C1_nil_section_counts_as_success [of ?c]
  from T h1 have a: "''ntp'' \<notin> set (failed (Apply ?b))" by blast
  from T h2 have b: "failed (Apply ?b) = []" by blast
  from T [THEN conjunct2, THEN conjunct2, THEN conjunct1, rule_format, OF h3] h4 h5
  have "applyList ?b ! 0 \<in> set (success (Apply ?b))" by blast
  then have c: "''ntp'' \<in> set (success (Apply ?b))" by (simp add: sampleCmc_simps)
  from T [THEN conjunct2, THEN conjunct2, THEN conjunct2, THEN conjunct1, rule_format, OF h3']
    h2 h4' h6'
  have "success (Apply ?b) = take (Suc 0) (applyList ?b)" by blast
  then have d: "success (Apply ?b) = [''ntp'']" by (simp add: sampleCmc_simps)
  from U [THEN conjunct2, THEN conjunct2, THEN conjunct2, THEN conjunct2] h7 h2c
  have "success (Apply ?c) = applyList ?c" by blast
  then have e: "success (Apply ?c) = [''ntp'', ''user'']" by (simp add: sampleCmc_simps)
  from h1 h2 h6 a b c d e show ?thesis by blast
qed

text \<open>
  Claim C6 (the code departs from it): with both the ldap_group and the ldap section
  present and a device whose \<open>LdapGroups\<close> call returns an error, \<open>Apply\<close> on the
  apply list \<open>[ldap_group]\<close> records ldap_group as succeeded and nothing as failed.
  The error of the call is assigned to the variable \<open>err\<close> that the group lookup
  declared inside the \<open>if\<close> block, not to the one the classification reads.
\<close>

theorem C6_ldap_group_error_lost:
  "LdapGroups (config (sampleCmc [''ldap_group''] sampleConfig neverStopped)) = Some sampleGroups
   \<and> Ldap (config (sampleCmc [''ldap_group''] sampleConfig neverStopped)) = Some ''ldap''
   \<and> configure_LdapGroups (configure (sampleCmc [''ldap_group''] sampleConfig neverStopped))
        (Groups sampleGroups) ''ldap'' = Some (ExternalError ''ldap groups rejected'')
   \<and> success (Apply (sampleCmc [''ldap_group''] sampleConfig neverStopped)) = [''ldap_group'']
   \<and> failed (Apply (sampleCmc [''ldap_group''] sampleConfig neverStopped)) = []"
  by (simp add: Apply_def Let_def sampleCmc_simps applyResource_def sampleConfig_def
        neverStopped_def sampleGroups_def sampleConfigure_def)

text \<open>
  Whatever the device and the group lookup answer, \<open>Apply\<close> never records ldap_group
  as failed.
\<close>

lemma ldap_group_never_failed: "''ldap_group'' \<notin> set (failed (Apply b))"
proof -
  obtain k where k: "k \<le> length (applyList b)" "\<forall>j<k. \<not> stopChan b j"
      "k < length (applyList b) \<longrightarrow> stopChan b k"
    by (rule first_stop [of "length (applyList b)" "stopChan b"])
  show ?thesis by (simp add: Apply_prefix(2) [OF k] ldap_group_no_error)
qed

text \<open>
  Claim C7: when the interrupt flag is first seen before the resource at position
  \<open>k\<close> (counted from 0) of the apply list, \<open>Apply\<close> has run its loop body for the
  first \<open>k\<close> resources only; each of them is in the succeeded or the failed list
  according to the error its own apply step left, and the resources from position
  \<open>k\<close> on are in neither list.
\<close>

theorem C7_interrupt_keeps_prefix:
  assumes "k < length (applyList b)" and "stopChan b k" and "\<forall>j<k. \<not> stopChan b j"
  shows "appliedResources (logged (Apply b)) = take k (applyList b)
       \<and> success (Apply b) = filter (\<lambda>r. fst (applyResource b r) = None) (take k (applyList b))
       \<and> failed (Apply b) = filter (\<lambda>r. fst (applyResource b r) \<noteq> None) (take k (applyList b))
       \<and> (distinct (applyList b) \<longrightarrow>
            (\<forall>j. k \<le> j \<and> j < length (applyList b) \<longrightarrow>
                 applyList b ! j \<notin> set (success (Apply b)) \<union> set (failed (Apply b))))"
proof -
  have k: "k \<le> length (applyList b)" "\<forall>j<k. \<not> stopChan b j"
      "k < length (applyList b) \<longrightarrow> stopChan b k"
    using assms by auto
  note P = Apply_prefix [OF k]
  have "applyList b ! j \<notin> set (take k (applyList b))"
    if "distinct (applyList b)" "k \<le> j" "j < length (applyList b)" for j
  proof
    assume "applyList b ! j \<in> set (take k (applyList b))"
    then obtain i where i: "i < k" "i < length (applyList b)" "applyList b ! i = applyList b ! j"
      by (auto simp: in_set_conv_nth)
    with that have "i = j" by (simp add: nth_eq_iff_index_eq)
    with i that show False by simp
  qed
  then show ?thesis by (auto simp: P)
qed

theorem C7_interrupt_keeps_prefix_witness:
  "stopChan (sampleCmc [''network'', ''user'', ''ntp''] sampleConfig (stoppedFrom 1)) 1
   \<and> appliedResources
        (logged (Apply (sampleCmc [''network'', ''user'', ''ntp''] sampleConfig (stoppedFrom 1))))
      = [''network'']
   \<and> success (Apply (sampleCmc [''network'', ''user'', ''ntp''] sampleConfig (stoppedFrom 1))) = []
   \<and> failed (Apply (sampleCmc [''network'', ''user'', ''ntp''] sampleConfig (stoppedFrom 1)))
      = [''network'']
   \<and> ''user'' \<notin> set (success (Apply (sampleCmc [''network'', ''user'', ''ntp''] sampleConfig
                                    (stoppedFrom 1))))
             \<union> set (failed (Apply (sampleCmc [''network'', ''user'', ''ntp''] sampleConfig
                                    (stoppedFrom 1))))"
proof -
  let ?b = "sampleCmc [''network'', ''user'', ''ntp''] sampleConfig (stoppedFrom 1)"
  have h1: "1 < length (applyList ?b)" by (simp add: sampleCmc_simps)
  have h2: "stopChan ?b 1" by (simp add: sampleCmc_simps stoppedFrom_def)
  have h3: "\<forall>j<1. \<not> stopChan ?b j" by (simp add: sampleCmc_simps stoppedFrom_def)
  have d: "distinct (applyList ?b)" by (simp add: sampleCmc_simps)
  have e: "fst (applyResource ?b ''network'') \<noteq> None"
    by (simp add: applyResource_def sampleCmc_simps sampleConfig_def sampleConfigure_def)
  note T = C7_interrupt_keeps_prefix [OF h1 h2 h3]
  from T d have "applyList ?b ! 1 \<notin> set (success (Apply ?b)) \<union> set (failed (Apply ?b))"
    using h1 by blast
  then have u: "''user'' \<notin> set (success (Apply ?b)) \<union> set (failed (Apply ?b))"
    by (simp add: sampleCmc_simps)
  from T have "appliedResources (logged (Apply ?b)) = [''network'']
      \<and> success (Apply ?b) = [] \<and> failed (Apply ?b) = [''network'']"
    using e by (simp add: sampleCmc_simps)
  with h2 u show ?thesis by blast
qed

section \<open>Dispatch filters\<close>

lemma myLocation_loop_iff: "myLocation_loop ls l \<longleftrightarrow> l \<in> set ls"
  by (induction ls) auto

lemma myLocation_iff: "myLocation b l \<longleftrightarrow> l \<in> set (Locations (Config b))"
  by (simp add: myLocation_def myLocation_loop_iff)

lemma sampleMsg_simps:
  "IPAddresses (Asset (sampleMsg ips location exec)) = ips"
  "Location (Asset (sampleMsg ips location exec)) = location"
  "Execute (Asset (sampleMsg ips location exec)) = exec"
  "AssetExecute (sampleMsg ips location exec) = ''power-cycle''"
  by (simp_all add: sampleMsg_def)

lemma sampleParams_simps:
  "Locations (sampleParams locations ignore) = locations"
  "IgnoreLocation (sampleParams locations ignore) = ignore"
  by (simp_all add: sampleParams_def)

text \<open>
  Claim C8, as stated, at a message whose asset has an empty IP list, handled after
  the interrupt flag was set: the no-IP counter is not incremented.
\<close>

theorem C8_counterexample:
  "IPAddresses (Asset (sampleMsg [] '''' False)) = []
   \<and> metrics (msgHandler \<lparr>Config = sampleParams [] False, interrupt = True\<rparr> sampleEnv
                noCounts (sampleMsg [] '''' False))
        [''butler'', ''asset_recvd_noip''] = 0"
  by (simp add: msgHandler_def noCounts_def sampleMsg_simps)

text \<open>
  Claim C8, amended: for every work message whose asset has an empty IP-address list,
  or a one-element IP-address list containing only the placeholder 0.0.0.0, the
  message handler returns without invoking login or any further action. When the
  butler's interrupt flag is not set, it increments the no-IP counter exactly once
  (and the received counter once, and no other counter); when the flag is set, it
  returns before touching any counter.
\<close>

theorem C8_no_ip_rejected:
  assumes "IPAddresses (Asset msg) = [] \<or> IPAddresses (Asset msg) = [''0.0.0.0'']"
  shows "invoked (msgHandler b env m0 msg) = []
     \<and> (interrupt b \<longrightarrow> metrics (msgHandler b env m0 msg) = m0)
     \<and> (\<not> interrupt b \<longrightarrow>
          metrics (msgHandler b env m0 msg)
            = m0([''butler'', ''asset_recvd''] := m0 [''butler'', ''asset_recvd''] + 1,
                 [''butler'', ''asset_recvd_noip''] := m0 [''butler'', ''asset_recvd_noip''] + 1))"
  using assms by (auto simp: msgHandler_def Let_def IncrCounter_def)

theorem C8_no_ip_rejected_witness:
  "invoked (msgHandler \<lparr>Config = sampleParams [] False, interrupt = False\<rparr> sampleEnv
              noCounts (sampleMsg [''0.0.0.0''] '''' True)) = []
   \<and> metrics (msgHandler \<lparr>Config = sampleParams [] False, interrupt = False\<rparr> sampleEnv
                noCounts (sampleMsg [''0.0.0.0''] '''' True))
        [''butler'', ''asset_recvd_noip''] = 1
   \<and> metrics (msgHandler \<lparr>Config = sampleParams [] False, interrupt = True\<rparr> sampleEnv
                noCounts (sampleMsg [''0.0.0.0''] '''' True)) = noCounts"
proof -
  let ?msg = "sampleMsg [''0.0.0.0''] '''' True"
  have h: "IPAddresses (Asset ?msg) = [] \<or> IPAddresses (Asset ?msg) = [''0.0.0.0'']"
    by (simp add: sampleMsg_simps)
  have a: "\<not> interrupt \<lparr>Config = sampleParams [] False, interrupt = False\<rparr>"
    and b: "interrupt \<lparr>Config = sampleParams [] False, interrupt = True\<rparr>"
    by simp_all
  from C8_no_ip_rejected [OF h, of "\<lparr>Config = sampleParams [] False, interrupt = False\<rparr>"
         sampleEnv noCounts] a
  have 1: "invoked (msgHandler \<lparr>Config = sampleParams [] False, interrupt = False\<rparr> sampleEnv
              noCounts ?msg) = []
     \<and> metrics (msgHandler \<lparr>Config = sampleParams [] False, interrupt = False\<rparr> sampleEnv
                noCounts ?msg) [''butler'', ''asset_recvd_noip''] = 1"
    by (simp add: noCounts_def)
  from C8_no_ip_rejected [OF h, of "\<lparr>Config = sampleParams [] False, interrupt = True\<rparr>"
         sampleEnv noCounts] b
  have 2: "metrics (msgHandler \<lparr>Config = sampleParams [] False, interrupt = True\<rparr> sampleEnv
                noCounts ?msg) = noCounts"
    by blast
  from 1 2 show ?thesis by blast
qed

text \<open>
  Claim C9, as stated, at an asset with a usable IP and the location ams4, an empty
  location allow-list and no ignore-location override: the claim's condition for
  rejecting does not hold (the allow-list is empty), yet the handler rejects the asset:
  it counts it as location-unmanaged and takes no action, although the asset asks for
  a command to be executed.
\<close>

theorem C9_counterexample:
  "Locations (Config \<lparr>Config = sampleParams [] False, interrupt = False\<rparr>) = []
   \<and> Execute (Asset (sampleMsg [''10.0.0.1''] ''ams4'' True))
   \<and> invoked (msgHandler \<lparr>Config = sampleParams [] False, interrupt = False\<rparr> sampleEnv
                noCounts (sampleMsg [''10.0.0.1''] ''ams4'' True)) = []
   \<and> metrics (msgHandler \<lparr>Config = sampleParams [] False, interrupt = False\<rparr> sampleEnv
                noCounts (sampleMsg [''10.0.0.1''] ''ams4'' True))
        [''butler'', ''asset_recvd_location_unmanaged''] = 1"
  by (simp add: msgHandler_def Let_def IncrCounter_def noCounts_def sampleMsg_simps
        sampleParams_simps myLocation_iff)

text \<open>
  Claim C9, amended: for every work message whose asset has a usable IP and a
  non-empty location, handled while the interrupt flag is not set, the message handler
  rejects the asset (it counts it as location-unmanaged and takes no execute/configure
  action) exactly when the configured location allow-list does not contain that
  location (an empty allow-list contains none) and the global ignore-location override
  is not set; otherwise handling continues with the action the asset asks for.
\<close>

theorem C9_location_filter:
  assumes "\<not> interrupt b"
    and "IPAddresses (Asset msg) \<noteq> []" and "IPAddresses (Asset msg) \<noteq> [''0.0.0.0'']"
    and "Location (Asset msg) \<noteq> ''''"
  shows "(Location (Asset msg) \<notin> set (Locations (Config b)) \<and> \<not> IgnoreLocation (Config b) \<longrightarrow>
            invoked (msgHandler b env m0 msg) = []
            \<and> metrics (msgHandler b env m0 msg)
               = m0([''butler'', ''asset_recvd''] := m0 [''butler'', ''asset_recvd''] + 1,
                    [''butler'', ''asset_recvd_location_unmanaged''] :=
                       m0 [''butler'', ''asset_recvd_location_unmanaged''] + 1))
       \<and> (Location (Asset msg) \<in> set (Locations (Config b)) \<or> IgnoreLocation (Config b) \<longrightarrow>
            invoked (msgHandler b env m0 msg)
              = (if Execute (Asset msg) then [ExecuteCommand (AssetExecute msg) (Asset msg)]
                 else if Configure (Asset msg) then [ConfigureAsset (AssetConfig msg) (Asset msg)]
                 else [])
            \<and> metrics (msgHandler b env m0 msg) [''butler'', ''asset_recvd_location_unmanaged'']
               = m0 [''butler'', ''asset_recvd_location_unmanaged''])"
proof -
  have ip: "\<not> (length (IPAddresses (Asset msg)) = 0
      \<or> (length (IPAddresses (Asset msg)) = 1 \<and> IPAddresses (Asset msg) ! 0 = ''0.0.0.0''))"
    using assms(2,3) by (cases "IPAddresses (Asset msg)") auto
  show ?thesis
    using assms(1,4) ip
    by (auto simp: msgHandler_def Let_def IncrCounter_def myLocation_iff split: option.splits)
qed

theorem C9_location_filter_witness:
  "invoked (msgHandler \<lparr>Config = sampleParams [''lhr2''] False, interrupt = False\<rparr> sampleEnv
              noCounts (sampleMsg [''10.0.0.1''] ''ams4'' True)) = []
   \<and> metrics (msgHandler \<lparr>Config = sampleParams [''lhr2''] False, interrupt = False\<rparr> sampleEnv
                noCounts (sampleMsg [''10.0.0.1''] ''ams4'' True))
        [''butler'', ''asset_recvd_location_unmanaged''] = 1
   \<and> invoked (msgHandler \<lparr>Config = sampleParams [''lhr2'', ''ams4''] False, interrupt = False\<rparr>
                sampleEnv noCounts (sampleMsg [''10.0.0.1''] ''ams4'' True))
      = [ExecuteCommand ''power-cycle'' (Asset (sampleMsg [''10.0.0.1''] ''ams4'' True))]
   \<and> invoked (msgHandler \<lparr>Config = sampleParams [''lhr2''] True, interrupt = False\<rparr>
                sampleEnv noCounts (sampleMsg [''10.0.0.1''] ''ams4'' True))
      = [ExecuteCommand ''power-cycle'' (Asset (sampleMsg [''10.0.0.1''] ''ams4'' True))]"
proof -
  let ?msg = "sampleMsg [''10.0.0.1''] ''ams4'' True"
  have h: "IPAddresses (Asset ?msg) \<noteq> []" "IPAddresses (Asset ?msg) \<noteq> [''0.0.0.0'']"
      "Location (Asset ?msg) \<noteq> ''''"
    by (simp_all add: sampleMsg_simps)
  have i: "\<not> interrupt \<lparr>Config = c, interrupt = False\<rparr>" for c by simp
  have 1: "invoked (msgHandler \<lparr>Config = sampleParams [''lhr2''] False, interrupt = False\<rparr>
                sampleEnv noCounts ?msg) = []
     \<and> metrics (msgHandler \<lparr>Config = sampleParams [''lhr2''] False, interrupt = False\<rparr>
                sampleEnv noCounts ?msg) [''butler'', ''asset_recvd_location_unmanaged''] = 1"
    using C9_location_filter [OF i h, of "sampleParams [''lhr2''] False" sampleEnv noCounts]
    by (simp add: sampleMsg_simps sampleParams_simps noCounts_def)
  have 2: "invoked (msgHandler \<lparr>Config = sampleParams [''lhr2'', ''ams4''] False,
                interrupt = False\<rparr> sampleEnv noCounts ?msg)
      = [ExecuteCommand ''power-cycle'' (Asset ?msg)]"
    using C9_location_filter [OF i h, of "sampleParams [''lhr2'', ''ams4''] False" sampleEnv
            noCounts]
    by (simp add: sampleMsg_simps sampleParams_simps)
  have 3: "invoked (msgHandler \<lparr>Config = sampleParams [''lhr2''] True, interrupt = False\<rparr>
                sampleEnv noCounts ?msg)
      = [ExecuteCommand ''power-cycle'' (Asset ?msg)]"
    using C9_location_filter [OF i h, of "sampleParams [''lhr2''] True" sampleEnv noCounts]
    by (simp add: sampleMsg_simps sampleParams_simps)
  from 1 2 3 show ?thesis by blast
qed

section \<open>Login\<close>

declare retryLoop.simps [simp del]

lemma attemptLogin_Retries:
  "attemptLogin (p\<lparr>Retries := r\<rparr>) env ip user pass = attemptLogin p env ip user pass"
  by (auto simp: attemptLogin_def split: prod.splits option.splits)

lemma attemptAt_Retries: "attemptAt (p\<lparr>Retries := r\<rparr>) w calls i = attemptAt p w calls i"
  by (simp add: attemptAt_def attemptLogin_Retries)

lemma attemptLogin_inactive_no_error:
  "attemptLogin p env ip user pass = (c, True, e) \<Longrightarrow> e = None"
  by (auto simp: attemptLogin_def split: prod.splits option.splits if_splits devtype.splits)

lemma attemptLogin_chassis:
  assumes "CheckCredential p" and "ScanAndConnect env [] = (Some c, None)"
    and "chassisController active c"
  shows "attemptLogin p env ip user pass = (Some c, \<not> active, None)"
  using assms by (auto simp: attemptLogin_def chassisController_def)

lemma attemptAt_append:
  "i < length calls \<Longrightarrow> attemptAt p w (calls @ ext) i = attemptAt p w calls i"
  by (simp add: attemptAt_def nth_append)

lemma allRejected_snoc:
  "allRejected p w (calls @ [x]) \<longleftrightarrow>
     allRejected p w calls \<and> \<not> accepted (attemptAt p w (calls @ [x]) (length calls))"
  by (auto simp: allRejected_def less_Suc_eq attemptAt_append)

text \<open>One step of the retry loop, with the result of its attempt named.\<close>

lemma retryLoop_step:
  assumes "t \<le> Retries p"
    and "attemptLogin p (w (Suc (Attempts loginInfo)) ip user pass) ip user pass = (c, inact, e)"
  shows "retryLoop p w user pass ip t (loginInfo, calls) =
     (if inact then
        (if length (IpAddresses p) = 1 then
           Inl ((c, loginInfo\<lparr>Attempts := Suc (Attempts loginInfo),
                               WorkingCredentials := [(user, pass)]\<rparr>, e),
                calls @ [(user, pass, ip)])
         else Inr (loginInfo\<lparr>Attempts := Suc (Attempts loginInfo)\<rparr>, calls @ [(user, pass, ip)]))
      else if e = None then
        Inl ((c, loginInfo\<lparr>Attempts := Suc (Attempts loginInfo), ActiveIpAddress := ip,
                            WorkingCredentials := [(user, pass)]\<rparr>, e),
             calls @ [(user, pass, ip)])
      else retryLoop p w user pass ip (t + 1)
             (loginInfo\<lparr>Attempts := Suc (Attempts loginInfo),
                        FailedCredentials := FailedCredentials loginInfo @ [[(user, pass)]]\<rparr>,
              calls @ [(user, pass, ip)]))"
  using assms by (subst retryLoop.simps) (simp add: Let_def)

lemma retryLoop_done:
  "\<not> t \<le> Retries p \<Longrightarrow> retryLoop p w user pass ip t s = Inr s"
  by (cases s) (simp add: retryLoop.simps)

lemma retryLoop_inv:
  assumes "searching p w s" and "ip \<noteq> []"
  shows "case retryLoop p w user pass ip t s of
           Inl r \<Rightarrow> returned p w r
         | Inr s' \<Rightarrow> searching p w s'"
  using assms
proof (induction n \<equiv> "nat (Retries p + 1 - t)" arbitrary: t s)
  case 0
  then have "\<not> t \<le> Retries p" by simp
  with 0 show ?case by (simp add: retryLoop_done)
next
  case (Suc n)
  obtain loginInfo calls where s: "s = (loginInfo, calls)" by (cases s)
  from Suc.hyps(2) have t: "t \<le> Retries p" and n: "n = nat (Retries p + 1 - (t + 1))"
    by simp_all
  from Suc.prems s have A: "Attempts loginInfo = length calls" and R: "allRejected p w calls"
    and N: "\<forall>c\<in>set calls. snd (snd c) \<noteq> []" and ip: "ip \<noteq> []"
    by (simp_all add: searching_def)
  obtain c inact e where
    al: "attemptLogin p (w (Suc (Attempts loginInfo)) ip user pass) ip user pass = (c, inact, e)"
    by (cases "attemptLogin p (w (Suc (Attempts loginInfo)) ip user pass) ip user pass") auto
  have at: "attemptAt p w (calls @ [(user, pass, ip)]) (length calls) = (c, inact, e)"
    using al A by (simp add: attemptAt_def)
  note step = retryLoop_step [where w = w and calls = calls, OF t al]
  consider (last_resort) "inact" "length (IpAddresses p) = 1"
    | (next_ip) "inact" "length (IpAddresses p) \<noteq> 1"
    | (success) "\<not> inact" "e = None"
    | (failure) "\<not> inact" "e \<noteq> None"
    by blast
  then show ?case
  proof cases
    case last_resort
    from al last_resort(1) have "e = None"
      by (auto dest: attemptLogin_inactive_no_error)
    then show ?thesis
      using last_resort s step A R N ip at by (simp add: returned_def accepted_def)
  next
    case next_ip
    then show ?thesis
      using s step A R N ip at by (simp add: searching_def allRejected_snoc accepted_def)
  next
    case success
    then show ?thesis
      using s step A R N ip at by (simp add: returned_def accepted_def)
  next
    case failure
    have "searching p w
            (loginInfo\<lparr>Attempts := Suc (Attempts loginInfo),
                       FailedCredentials := FailedCredentials loginInfo @ [[(user, pass)]]\<rparr>,
             calls @ [(user, pass, ip)])"
      using failure A R N ip at by (simp add: searching_def allRejected_snoc accepted_def)
    from Suc.hyps(1) [OF n this ip] show ?thesis
      using failure s step by auto
  qed
qed

lemma ipLoop_inv:
  assumes "searching p w s"
  shows "case ipLoop p w user pass ips s of
           Inl r \<Rightarrow> returned p w r
         | Inr s' \<Rightarrow> searching p w s'"
  using assms
proof (induction ips arbitrary: s)
  case Nil
  then show ?case by simp
next
  case (Cons ip ips)
  show ?case
  proof (cases "ip = ''''")
    case True
    with Cons show ?thesis by simp
  next
    case False
    show ?thesis
    proof (cases "retryLoop p w user pass ip 0 s")
      case (Inl r)
      with retryLoop_inv [OF Cons.prems, of ip user pass 0] False show ?thesis by simp
    next
      case (Inr s')
      with retryLoop_inv [OF Cons.prems, of ip user pass 0] False have "searching p w s'" by simp
      from Cons.IH [OF this] Inr False show ?thesis by simp
    qed
  qed
qed

lemma entryLoop_inv:
  assumes "searching p w s"
  shows "case entryLoop p w entries s of
           Inl r \<Rightarrow> returned p w r
         | Inr s' \<Rightarrow> searching p w s'"
  using assms
proof (induction entries arbitrary: s)
  case Nil
  then show ?case by simp
next
  case (Cons entry entries)
  obtain user pass where e: "entry = (user, pass)" by (cases entry)
  show ?case
  proof (cases "ipLoop p w user pass (IpAddresses p) s")
    case (Inl r)
    with ipLoop_inv [OF Cons.prems, of user pass "IpAddresses p"] e show ?thesis by simp
  next
    case (Inr s')
    with ipLoop_inv [OF Cons.prems, of user pass "IpAddresses p"] have "searching p w s'" by simp
    from Cons.IH [OF this] Inr e show ?thesis by simp
  qed
qed

lemma credentialsLoop_inv:
  assumes "searching p w s"
  shows "case credentialsLoop p w cs s of
           Inl r \<Rightarrow> returned p w r
         | Inr s' \<Rightarrow> searching p w s'"
  using assms
proof (induction cs arbitrary: s)
  case Nil
  then show ?case by simp
next
  case (Cons credentials cs)
  show ?case
  proof (cases "entryLoop p w credentials s")
    case (Inl r)
    with entryLoop_inv [OF Cons.prems, of credentials] show ?thesis by simp
  next
    case (Inr s')
    with entryLoop_inv [OF Cons.prems, of credentials] have "searching p w s'" by simp
    from Cons.IH [OF this] Inr show ?thesis by simp
  qed
qed

text \<open>What a loop that runs to its end has called.\<close>

lemma retryLoop_calls:
  assumes "retryLoop p w user pass ip t s = Inr s'"
  shows "set (snd s) \<subseteq> set (snd s') \<and> (t \<le> Retries p \<longrightarrow> (user, pass, ip) \<in> set (snd s'))"
  using assms
proof (induction n \<equiv> "nat (Retries p + 1 - t)" arbitrary: t s)
  case 0
  then have "\<not> t \<le> Retries p" by simp
  with 0 show ?case by (simp add: retryLoop_done)
next
  case (Suc n)
  obtain loginInfo calls where s: "s = (loginInfo, calls)" by (cases s)
  from Suc.hyps(2) have t: "t \<le> Retries p" and n: "n = nat (Retries p + 1 - (t + 1))"
    by simp_all
  obtain c inact e where
    al: "attemptLogin p (w (Suc (Attempts loginInfo)) ip user pass) ip user pass = (c, inact, e)"
    by (cases "attemptLogin p (w (Suc (Attempts loginInfo)) ip user pass) ip user pass") auto
  note step = retryLoop_step [where w = w and calls = calls, OF t al]
  show ?case
  proof (cases "\<not> inact \<and> e \<noteq> None")
    case True
    with Suc.prems s step have
      "retryLoop p w user pass ip (t + 1)
         (loginInfo\<lparr>Attempts := Suc (Attempts loginInfo),
                    FailedCredentials := FailedCredentials loginInfo @ [[(user, pass)]]\<rparr>,
          calls @ [(user, pass, ip)]) = Inr s'"
      by simp
    from Suc.hyps(1) [OF n this] s show ?thesis by auto
  next
    case False
    with Suc.prems s step show ?thesis by (auto split: if_splits)
  qed
qed

lemma ipLoop_calls:
  assumes "ipLoop p w user pass ips s = Inr s'"
  shows "set (snd s) \<subseteq> set (snd s')
         \<and> (0 \<le> Retries p \<longrightarrow> (\<forall>ip\<in>set ips. ip \<noteq> '''' \<longrightarrow> (user, pass, ip) \<in> set (snd s')))"
  using assms
proof (induction ips arbitrary: s)
  case Nil
  then show ?case by simp
next
  case (Cons ip ips)
  show ?case
  proof (cases "ip = ''''")
    case True
    with Cons show ?thesis by simp
  next
    case False
    with Cons.prems obtain s1 where
      r: "retryLoop p w user pass ip 0 s = Inr s1" and l: "ipLoop p w user pass ips s1 = Inr s'"
      by (auto split: sum.splits)
    from retryLoop_calls [OF r] Cons.IH [OF l] have
      "set (snd s) \<subseteq> set (snd s1)" "(0 \<le> Retries p \<longrightarrow> (user, pass, ip) \<in> set (snd s1))"
      "set (snd s1) \<subseteq> set (snd s')"
      "0 \<le> Retries p \<longrightarrow> (\<forall>ip\<in>set ips. ip \<noteq> '''' \<longrightarrow> (user, pass, ip) \<in> set (snd s'))"
      by simp_all
    then show ?thesis using False by auto
  qed
qed

lemma entryLoop_calls:
  assumes "entryLoop p w entries s = Inr s'"
  shows "set (snd s) \<subseteq> set (snd s')
         \<and> (0 \<le> Retries p \<longrightarrow>
              (\<forall>user pass ip. (user, pass) \<in> set entries \<and> ip \<in> set (IpAddresses p)
                  \<and> ip \<noteq> '''' \<longrightarrow> (user, pass, ip) \<in> set (snd s')))"
  using assms
proof (induction entries arbitrary: s)
  case Nil
  then show ?case by simp
next
  case (Cons entry entries)
  obtain user pass where e: "entry = (user, pass)" by (cases entry)
  with Cons.prems obtain s1 where
    r: "ipLoop p w user pass (IpAddresses p) s = Inr s1" and l: "entryLoop p w entries s1 = Inr s'"
    by (auto split: sum.splits)
  from ipLoop_calls [OF r] Cons.IH [OF l] have
    "set (snd s) \<subseteq> set (snd s1)"
    "0 \<le> Retries p \<longrightarrow> (\<forall>ip\<in>set (IpAddresses p). ip \<noteq> '''' \<longrightarrow> (user, pass, ip) \<in> set (snd s1))"
    "set (snd s1) \<subseteq> set (snd s')"
    "0 \<le> Retries p \<longrightarrow>
       (\<forall>user pass ip. (user, pass) \<in> set entries \<and> ip \<in> set (IpAddresses p)
           \<and> ip \<noteq> '''' \<longrightarrow> (user, pass, ip) \<in> set (snd s'))"
    by simp_all
  then show ?case using e by auto
qed

lemma credentialsLoop_calls:
  assumes "credentialsLoop p w cs s = Inr s'"
  shows "set (snd s) \<subseteq> set (snd s')
         \<and> (0 \<le> Retries p \<longrightarrow>
              (\<forall>credentials user pass ip. credentials \<in> set cs \<and> (user, pass) \<in> set credentials
                  \<and> ip \<in> set (IpAddresses p) \<and> ip \<noteq> '''' \<longrightarrow> (user, pass, ip) \<in> set (snd s')))"
  using assms
proof (induction cs arbitrary: s)
  case Nil
  then show ?case by simp
next
  case (Cons credentials cs)
  with Cons.prems obtain s1 where
    r: "entryLoop p w credentials s = Inr s1" and l: "credentialsLoop p w cs s1 = Inr s'"
    by (auto split: sum.splits)
  from entryLoop_calls [OF r] Cons.IH [OF l] have
    "set (snd s) \<subseteq> set (snd s1)"
    "0 \<le> Retries p \<longrightarrow>
       (\<forall>user pass ip. (user, pass) \<in> set credentials \<and> ip \<in> set (IpAddresses p)
           \<and> ip \<noteq> '''' \<longrightarrow> (user, pass, ip) \<in> set (snd s1))"
    "set (snd s1) \<subseteq> set (snd s')"
    "0 \<le> Retries p \<longrightarrow>
       (\<forall>credentials user pass ip. credentials \<in> set cs \<and> (user, pass) \<in> set credentials
           \<and> ip \<in> set (IpAddresses p) \<and> ip \<noteq> '''' \<longrightarrow> (user, pass, ip) \<in> set (snd s'))"
    by blast+
  then show ?case by auto
qed
text \<open>The calls of each loop are taken, in order, from its part of the matrix.\<close>

lemma extendsWithin_refl: "extendsWithin calls calls m"
  by (simp add: extendsWithin_def)

lemma extendsWithin_trans:
  assumes "extendsWithin a b m1" and "extendsWithin b c m2"
  shows "extendsWithin a c (m1 @ m2)"
proof -
  from assms obtain e1 e2 where "b = a @ e1" "subseq e1 m1" "c = b @ e2" "subseq e2 m2"
    by (auto simp: extendsWithin_def)
  then have "c = a @ (e1 @ e2)" "subseq (e1 @ e2) (m1 @ m2)"
    by (simp_all add: list_emb_append_mono)
  then show ?thesis unfolding extendsWithin_def by blast
qed

lemma extendsWithin_length: "extendsWithin a b m \<Longrightarrow> length a \<le> length b"
  by (auto simp: extendsWithin_def)

lemma noneInactiveFrom_prefix:
  assumes "noneInactiveFrom p w k (b @ e)"
  shows "noneInactiveFrom p w k b"
  unfolding noneInactiveFrom_def
proof (intro allI impI)
  fix i assume i: "i < length b" "k \<le> i"
  with assms have "\<not> fst (snd (attemptAt p w (b @ e) i))"
    by (simp add: noneInactiveFrom_def)
  with i(1) show "\<not> fst (snd (attemptAt p w b i))"
    by (simp add: attemptAt_append)
qed

lemma noneInactiveFrom_mono:
  "noneInactiveFrom p w k calls \<Longrightarrow> k \<le> k' \<Longrightarrow> noneInactiveFrom p w k' calls"
  by (simp add: noneInactiveFrom_def)

lemma retryLoop_matrix:
  assumes "Attempts (fst s) = length (snd s)"
  shows "case retryLoop p w user pass ip t s of
           Inl r \<Rightarrow>
             extendsWithin (snd s) (snd r) (replicate (nat (Retries p + 1 - t)) (user, pass, ip))
         | Inr s' \<Rightarrow>
             extendsWithin (snd s) (snd s') (replicate (nat (Retries p + 1 - t)) (user, pass, ip))
             \<and> Attempts (fst s') = length (snd s')
             \<and> (noneInactiveFrom p w (length (snd s)) (snd s') \<longrightarrow>
                  snd s' = snd s @ replicate (nat (Retries p + 1 - t)) (user, pass, ip))"
  using assms
proof (induction n \<equiv> "nat (Retries p + 1 - t)" arbitrary: t s)
  case 0
  then have "\<not> t \<le> Retries p" by simp
  with 0 show ?case by (simp add: retryLoop_done extendsWithin_refl)
next
  case (Suc n)
  obtain loginInfo calls where s: "s = (loginInfo, calls)" by (cases s)
  from Suc.hyps(2) have t: "t \<le> Retries p" and n: "n = nat (Retries p + 1 - (t + 1))"
    by simp_all
  from Suc.hyps(2) have m: "nat (Retries p + 1 - t) = Suc n" by simp
  from Suc.prems s have A: "Attempts loginInfo = length calls" by simp
  obtain c inact e where
    al: "attemptLogin p (w (Suc (Attempts loginInfo)) ip user pass) ip user pass = (c, inact, e)"
    by (cases "attemptLogin p (w (Suc (Attempts loginInfo)) ip user pass) ip user pass") auto
  have at: "attemptAt p w (calls @ [(user, pass, ip)]) (length calls) = (c, inact, e)"
    using al A by (simp add: attemptAt_def)
  note step = retryLoop_step [where w = w and calls = calls, OF t al]
  have one: "extendsWithin calls (calls @ [(user, pass, ip)]) (replicate (Suc n) (user, pass, ip))"
    unfolding extendsWithin_def by (intro exI [of _ "[(user, pass, ip)]"]) simp
  show ?case
  proof (cases "\<not> inact \<and> e \<noteq> None")
    case False
    have "\<not> noneInactiveFrom p w (length calls) (calls @ [(user, pass, ip)])" if inact
      using that at by (auto simp: noneInactiveFrom_def)
    with False show ?thesis
      using s step A one m by (auto split: if_splits)
  next
    case True
    let ?s1 = "(loginInfo\<lparr>Attempts := Suc (Attempts loginInfo),
                         FailedCredentials := FailedCredentials loginInfo @ [[(user, pass)]]\<rparr>,
                calls @ [(user, pass, ip)])"
    have rec: "retryLoop p w user pass ip t s = retryLoop p w user pass ip (t + 1) ?s1"
      using True s step by auto
    have A1: "Attempts (fst ?s1) = length (snd ?s1)" using A by simp
    note IH = Suc.hyps(1) [OF n A1]
    have ext: "extendsWithin calls calls' (replicate (Suc n) (user, pass, ip))"
      if "extendsWithin (calls @ [(user, pass, ip)]) calls' (replicate n (user, pass, ip))"
      for calls'
    proof -
      from that obtain ext where "calls' = (calls @ [(user, pass, ip)]) @ ext"
          "subseq ext (replicate n (user, pass, ip))"
        by (auto simp: extendsWithin_def)
      then have "calls' = calls @ ((user, pass, ip) # ext)"
          "subseq ((user, pass, ip) # ext) (replicate (Suc n) (user, pass, ip))"
        by simp_all
      then show ?thesis unfolding extendsWithin_def by blast
    qed
    show ?thesis
    proof (cases "retryLoop p w user pass ip (t + 1) ?s1")
      case (Inl r)
      with IH n have "extendsWithin (calls @ [(user, pass, ip)]) (snd r)
                        (replicate n (user, pass, ip))"
        by simp
      from ext [OF this] Inl rec s m show ?thesis by simp
    next
      case (Inr s')
      with IH n have e1: "extendsWithin (calls @ [(user, pass, ip)]) (snd s')
                        (replicate n (user, pass, ip))"
        and a1: "Attempts (fst s') = length (snd s')"
        and f1: "noneInactiveFrom p w (Suc (length calls)) (snd s') \<longrightarrow>
                   snd s' = (calls @ [(user, pass, ip)]) @ replicate n (user, pass, ip)"
        by simp_all
      have "snd s' = calls @ replicate (Suc n) (user, pass, ip)"
        if "noneInactiveFrom p w (length calls) (snd s')"
        using f1 noneInactiveFrom_mono [OF that, of "Suc (length calls)"] by simp
      with ext [OF e1] a1 Inr rec s m show ?thesis by simp
    qed
  qed
qed

text \<open>Composing a loop body that extends the calls with the rest of the loop.\<close>

lemma matrix_compose:
  assumes b: "extendsWithin calls (snd s1) m1" and a1: "Attempts (fst s1) = length (snd s1)"
    and f1: "noneInactiveFrom p w (length calls) (snd s1) \<longrightarrow> snd s1 = calls @ m1"
    and rest: "case rest of
                 Inl r \<Rightarrow> extendsWithin (snd s1) (snd r) m2
               | Inr s' \<Rightarrow> extendsWithin (snd s1) (snd s') m2
                   \<and> Attempts (fst s') = length (snd s')
                   \<and> (noneInactiveFrom p w (length (snd s1)) (snd s') \<longrightarrow> snd s' = snd s1 @ m2)"
  shows "case rest of
           Inl r \<Rightarrow> extendsWithin calls (snd r) (m1 @ m2)
         | Inr s' \<Rightarrow> extendsWithin calls (snd s') (m1 @ m2)
             \<and> Attempts (fst s') = length (snd s')
             \<and> (noneInactiveFrom p w (length calls) (snd s') \<longrightarrow> snd s' = calls @ m1 @ m2)"
proof (cases rest)
  case (Inl r)
  with rest b show ?thesis by (simp add: extendsWithin_trans)
next
  case (Inr s')
  with rest have e2: "extendsWithin (snd s1) (snd s') m2"
    and a2: "Attempts (fst s') = length (snd s')"
    and f2: "noneInactiveFrom p w (length (snd s1)) (snd s') \<longrightarrow> snd s' = snd s1 @ m2"
    by simp_all
  have "snd s' = calls @ m1 @ m2" if n: "noneInactiveFrom p w (length calls) (snd s')"
  proof -
    from e2 obtain ext where ext: "snd s' = snd s1 @ ext" by (auto simp: extendsWithin_def)
    from n ext have "noneInactiveFrom p w (length calls) (snd s1)"
      using noneInactiveFrom_prefix [of p w "length calls" "snd s1" ext] by simp
    with f1 have s1: "snd s1 = calls @ m1" by simp
    from n have "noneInactiveFrom p w (length (snd s1)) (snd s')"
      using extendsWithin_length [OF b] by (rule noneInactiveFrom_mono)
    with f2 s1 show ?thesis by simp
  qed
  with extendsWithin_trans [OF b e2] a2 Inr show ?thesis by simp
qed

lemma ipLoop_matrix:
  assumes "Attempts (fst s) = length (snd s)"
  shows "case ipLoop p w user pass ips s of
           Inl r \<Rightarrow> extendsWithin (snd s) (snd r) (entryRows p user pass ips)
         | Inr s' \<Rightarrow>
             extendsWithin (snd s) (snd s') (entryRows p user pass ips)
             \<and> Attempts (fst s') = length (snd s')
             \<and> (noneInactiveFrom p w (length (snd s)) (snd s') \<longrightarrow>
                  snd s' = snd s @ entryRows p user pass ips)"
  using assms
proof (induction ips arbitrary: s)
  case Nil
  then show ?case by (simp add: entryRows_def extendsWithin_refl)
next
  case (Cons ip ips)
  show ?case
  proof (cases "ip = ''''")
    case True
    then have "entryRows p user pass (ip # ips) = entryRows p user pass ips"
      by (simp add: entryRows_def)
    with Cons.IH [OF Cons.prems] True show ?thesis by (auto split: sum.splits)
  next
    case False
    then have rows: "entryRows p user pass (ip # ips)
                       = replicate (nat (Retries p + 1 - 0)) (user, pass, ip)
                         @ entryRows p user pass ips"
      by (simp add: entryRows_def pairRow_def)
    note R = retryLoop_matrix [OF Cons.prems, where p = p and w = w and user = user
               and pass = pass and ip = ip and t = 0]
    show ?thesis
    proof (cases "retryLoop p w user pass ip 0 s")
      case (Inl r)
      with R have "extendsWithin (snd s) (snd r) (replicate (nat (Retries p + 1 - 0)) (user, pass, ip))"
        by simp
      from extendsWithin_trans [OF this extendsWithin_refl, of "entryRows p user pass ips"]
      show ?thesis using Inl False rows by simp
    next
      case (Inr s1)
      with R have b: "extendsWithin (snd s) (snd s1)
                        (replicate (nat (Retries p + 1 - 0)) (user, pass, ip))"
        and a1: "Attempts (fst s1) = length (snd s1)"
        and f1: "noneInactiveFrom p w (length (snd s)) (snd s1) \<longrightarrow>
                   snd s1 = snd s @ replicate (nat (Retries p + 1 - 0)) (user, pass, ip)"
        by simp_all
      from matrix_compose [OF b a1 f1 Cons.IH [OF a1]]
      show ?thesis using Inr False rows by (auto split: sum.splits)
    qed
  qed
qed

lemma entryLoop_matrix:
  assumes "Attempts (fst s) = length (snd s)"
  shows "case entryLoop p w entries s of
           Inl r \<Rightarrow> extendsWithin (snd s) (snd r) (credentialRows p entries)
         | Inr s' \<Rightarrow>
             extendsWithin (snd s) (snd s') (credentialRows p entries)
             \<and> Attempts (fst s') = length (snd s')
             \<and> (noneInactiveFrom p w (length (snd s)) (snd s') \<longrightarrow>
                  snd s' = snd s @ credentialRows p entries)"
  using assms
proof (induction entries arbitrary: s)
  case Nil
  then show ?case by (simp add: credentialRows_def extendsWithin_refl)
next
  case (Cons entry entries)
  obtain user pass where e: "entry = (user, pass)" by (cases entry)
  then have rows: "credentialRows p (entry # entries)
                     = entryRows p user pass (IpAddresses p) @ credentialRows p entries"
    by (simp add: credentialRows_def)
  note R = ipLoop_matrix [OF Cons.prems, where p = p and w = w and user = user
               and pass = pass and ips = "IpAddresses p"]
  show ?case
  proof (cases "ipLoop p w user pass (IpAddresses p) s")
    case (Inl r)
    with R have "extendsWithin (snd s) (snd r) (entryRows p user pass (IpAddresses p))"
      by simp
    from extendsWithin_trans [OF this extendsWithin_refl, of "credentialRows p entries"]
    show ?thesis using Inl e rows by simp
  next
    case (Inr s1)
    with R have b: "extendsWithin (snd s) (snd s1) (entryRows p user pass (IpAddresses p))"
      and a1: "Attempts (fst s1) = length (snd s1)"
      and f1: "noneInactiveFrom p w (length (snd s)) (snd s1) \<longrightarrow>
                 snd s1 = snd s @ entryRows p user pass (IpAddresses p)"
      by simp_all
    from matrix_compose [OF b a1 f1 Cons.IH [OF a1]]
    show ?thesis using Inr e rows by (auto split: sum.splits)
  qed
qed

lemma credentialsLoop_matrix:
  assumes "Attempts (fst s) = length (snd s)"
  shows "case credentialsLoop p w cs s of
           Inl r \<Rightarrow> extendsWithin (snd s) (snd r) (concat (map (credentialRows p) cs))
         | Inr s' \<Rightarrow>
             extendsWithin (snd s) (snd s') (concat (map (credentialRows p) cs))
             \<and> Attempts (fst s') = length (snd s')
             \<and> (noneInactiveFrom p w (length (snd s)) (snd s') \<longrightarrow>
                  snd s' = snd s @ concat (map (credentialRows p) cs))"
  using assms
proof (induction cs arbitrary: s)
  case Nil
  then show ?case by (simp add: extendsWithin_refl)
next
  case (Cons credentials cs)
  note R = entryLoop_matrix [OF Cons.prems, where p = p and w = w and entries = credentials]
  show ?case
  proof (cases "entryLoop p w credentials s")
    case (Inl r)
    with R have "extendsWithin (snd s) (snd r) (credentialRows p credentials)"
      by simp
    from extendsWithin_trans [OF this extendsWithin_refl, of "concat (map (credentialRows p) cs)"]
    show ?thesis using Inl by simp
  next
    case (Inr s1)
    with R have b: "extendsWithin (snd s) (snd s1) (credentialRows p credentials)"
      and a1: "Attempts (fst s1) = length (snd s1)"
      and f1: "noneInactiveFrom p w (length (snd s)) (snd s1) \<longrightarrow>
                 snd s1 = snd s @ credentialRows p credentials"
      by simp_all
    from matrix_compose [OF b a1 f1 Cons.IH [OF a1]]
    show ?thesis using Inr by (auto split: sum.splits)
  qed
qed

lemma searching_Retries: "searching (p\<lparr>Retries := r\<rparr>) w s = searching p w s"
  by (simp add: searching_def allRejected_def attemptAt_Retries)

lemma returned_Retries: "returned (p\<lparr>Retries := r\<rparr>) w x = returned p w x"
  by (simp add: returned_def allRejected_def attemptAt_Retries split: prod.splits)

text \<open>
  \<open>Login\<close> runs its loops with the parameters \<open>q\<close>: the receiver after a
  \<open>Retries\<close> of zero has been set to one.
\<close>

lemma Login_calls_unfold:
  obtains q where "q = p \<or> q = p\<lparr>Retries := 1\<rparr>"
    and "IpAddresses q = IpAddresses p" and "Credentials q = Credentials p"
    and "CheckCredential q = CheckCredential p"
    and "0 \<le> Retries p \<longrightarrow> 0 \<le> Retries q"
    and "Login_calls p w =
           (case credentialsLoop q w (Credentials p)
                   (\<lparr>FailedCredentials = [], WorkingCredentials = [],
                     ActiveIpAddress = '''', Attempts = 0\<rparr>, []) of
              Inl r \<Rightarrow> r
            | Inr (loginInfo', calls) \<Rightarrow>
                ((None, loginInfo', Some AllLoginAttemptsFailed), calls))"
proof (cases "Retries p = 0")
  case True
  show ?thesis
    by (rule that [of "p\<lparr>Retries := 1\<rparr>"]) (simp_all add: Login_calls_def True)
next
  case False
  show ?thesis
    by (rule that [of p]) (simp_all add: Login_calls_def False)
qed

text \<open>
  Either \<open>Login\<close> returned from inside its loops, with a nil error, on the last
  call it made, or it ran out of calls: then no call succeeded and, when \<open>Retries\<close>
  is not negative, every entry of every credential map was tried on every non-empty
  IP.
\<close>

lemma Login_calls_outcome:
  assumes "Login_calls p w = ((conn, li, err), calls)"
  shows "(err = None \<and> returned p w ((conn, li, err), calls))
       \<or> (err = Some AllLoginAttemptsFailed \<and> conn = None \<and> searching p w (li, calls)
           \<and> (0 \<le> Retries p \<longrightarrow>
                (\<forall>credentials user pass ip. credentials \<in> set (Credentials p)
                    \<and> (user, pass) \<in> set credentials \<and> ip \<in> set (IpAddresses p) \<and> ip \<noteq> ''''
                    \<longrightarrow> (user, pass, ip) \<in> set calls)))"
proof -
  let ?s0 = "(\<lparr>FailedCredentials = [], WorkingCredentials = [],
               ActiveIpAddress = '''', Attempts = 0\<rparr>, [])"
  obtain q where q: "q = p \<or> q = p\<lparr>Retries := 1\<rparr>"
    and ips: "IpAddresses q = IpAddresses p"
    and r: "0 \<le> Retries p \<longrightarrow> 0 \<le> Retries q"
    and L: "Login_calls p w =
           (case credentialsLoop q w (Credentials p) ?s0 of
              Inl r \<Rightarrow> r
            | Inr (loginInfo', calls) \<Rightarrow>
                ((None, loginInfo', Some AllLoginAttemptsFailed), calls))"
    by (rule Login_calls_unfold [of p w]) blast
  have s0: "searching q w ?s0"
    by (simp add: searching_def allRejected_def)
  have sq: "searching q w s = searching p w s" for s
    using q by (auto simp: searching_Retries)
  have rq: "returned q w x = returned p w x" for x
    using q by (auto simp: returned_Retries)
  show ?thesis
  proof (cases "credentialsLoop q w (Credentials p) ?s0")
    case (Inl x)
    with credentialsLoop_inv [OF s0, of "Credentials p"] have "returned q w x" by simp
    moreover from Inl L assms have x: "x = ((conn, li, err), calls)" by simp
    ultimately have "returned p w ((conn, li, err), calls)" by (simp add: rq)
    moreover from this have "err = None" by (simp add: returned_def)
    ultimately show ?thesis by blast
  next
    case (Inr s')
    obtain li' calls' where s': "s' = (li', calls')" by (cases s')
    with Inr L assms have e: "conn = None" "li' = li" "err = Some AllLoginAttemptsFailed"
        "calls' = calls"
      by simp_all
    from credentialsLoop_inv [OF s0, of "Credentials p"] Inr s' e
    have "searching p w (li, calls)" by (simp add: sq)
    moreover from credentialsLoop_calls [OF Inr] s' e r ips
    have "0 \<le> Retries p \<longrightarrow>
                (\<forall>credentials user pass ip. credentials \<in> set (Credentials p)
                    \<and> (user, pass) \<in> set credentials \<and> ip \<in> set (IpAddresses p) \<and> ip \<noteq> ''''
                    \<longrightarrow> (user, pass, ip) \<in> set calls)"
      by simp blast
    ultimately show ?thesis using e by blast
  qed
qed

lemma scan_chassisNetwork:
  "ScanAndConnect (chassisNetwork a n ip user pass) [] = (Some (sampleChassis (ip = a)), None)"
  by (simp add: ScanAndConnect_def ScanAndConnect_from_def buildOptions_def effectiveOrder_def
      chassisNetwork_def hostAnswering_def probe_order_def ProbeHpIlo_def ProbeIdrac8_def
      ProbeIdrac9_def ProbeSupermicrox11_def ProbeSupermicrox_def ProbeHpC7000_def)

lemma scan_silentNetwork:
  "ScanAndConnect (silentNetwork n ip user pass) [] = (None, Some ErrVendorUnknown)"
  by (simp add: ScanAndConnect_def ScanAndConnect_from_def buildOptions_def effectiveOrder_def
      silentNetwork_def hostSilent_def probe_order_def)

lemma Login_calls_two_chassis:
  "Login_calls (sampleLogin [''10.0.0.1'', ''10.0.0.2'']) (chassisNetwork ''10.0.0.2'')
     = ((Some (sampleChassis True),
         \<lparr>FailedCredentials = [], WorkingCredentials = [(''admin'', ''pass'')],
          ActiveIpAddress = ''10.0.0.2'', Attempts = 2\<rparr>, None),
        [(''admin'', ''pass'', ''10.0.0.1''), (''admin'', ''pass'', ''10.0.0.2'')])"
  by (simp add: Login_calls_def sampleLogin_def retryLoop.simps attemptLogin_def
      scan_chassisNetwork Let_def sampleChassis_def)

lemma Login_calls_silent:
  "Login_calls (sampleLogin [''10.0.0.1'', '''']) silentNetwork
     = ((None,
         \<lparr>FailedCredentials = [[(''admin'', ''pass'')], [(''admin'', ''pass'')]],
          WorkingCredentials = [], ActiveIpAddress = '''', Attempts = 2\<rparr>,
         Some AllLoginAttemptsFailed),
        [(''admin'', ''pass'', ''10.0.0.1''), (''admin'', ''pass'', ''10.0.0.1'')])"
  by (simp add: Login_calls_def sampleLogin_def retryLoop.simps attemptLogin_def
      scan_silentNetwork Let_def)

text \<open>
  What \<open>Login\<close> has recorded when it returns: the count of its attempts, the
  attempt it returned on, and what it has tried when it gives up.
\<close>

lemma Login_calls_search:
  assumes "Login_calls p w = ((conn, li, err), calls)"
  shows "Attempts li = length calls
     \<and> (\<forall>i<length calls. accepted (attemptAt p w calls i) \<longrightarrow>
          Suc i = length calls \<and> err = None \<and> conn = fst (attemptAt p w calls i)
          \<and> WorkingCredentials li = [(fst (calls ! i), fst (snd (calls ! i)))]
          \<and> ActiveIpAddress li = snd (snd (calls ! i)))
     \<and> (err \<noteq> None \<longrightarrow>
          err = Some AllLoginAttemptsFailed \<and> conn = None
          \<and> (\<forall>i<length calls. \<not> accepted (attemptAt p w calls i))
          \<and> (0 \<le> Retries p \<longrightarrow>
               (\<forall>credentials\<in>set (Credentials p). \<forall>(user, pass)\<in>set credentials.
                  \<forall>ip\<in>set (IpAddresses p). ip \<noteq> '''' \<longrightarrow> (user, pass, ip) \<in> set calls)))
     \<and> (\<forall>user pass. (user, pass, '''') \<notin> set calls)"
proof -
  note o = Login_calls_outcome [OF assms]
  from o consider (ret) "err = None" "returned p w ((conn, li, err), calls)"
    | (fail) "err = Some AllLoginAttemptsFailed" "conn = None" "searching p w (li, calls)"
        "0 \<le> Retries p \<longrightarrow>
           (\<forall>credentials user pass ip. credentials \<in> set (Credentials p)
               \<and> (user, pass) \<in> set credentials \<and> ip \<in> set (IpAddresses p) \<and> ip \<noteq> ''''
               \<longrightarrow> (user, pass, ip) \<in> set calls)"
    by blast
  then have N: "\<forall>c\<in>set calls. snd (snd c) \<noteq> []"
    by cases (simp_all add: returned_def searching_def)
  from o consider (ret) "err = None" "returned p w ((conn, li, err), calls)"
    | (fail) "err = Some AllLoginAttemptsFailed" "conn = None" "searching p w (li, calls)"
        "0 \<le> Retries p \<longrightarrow>
           (\<forall>credentials user pass ip. credentials \<in> set (Credentials p)
               \<and> (user, pass) \<in> set credentials \<and> ip \<in> set (IpAddresses p) \<and> ip \<noteq> []
               \<longrightarrow> (user, pass, ip) \<in> set calls)"
    by blast
  then have main: "Attempts li = length calls
     \<and> (\<forall>i<length calls. accepted (attemptAt p w calls i) \<longrightarrow>
          Suc i = length calls \<and> err = None \<and> conn = fst (attemptAt p w calls i)
          \<and> WorkingCredentials li = [(fst (calls ! i), fst (snd (calls ! i)))]
          \<and> ActiveIpAddress li = snd (snd (calls ! i)))
     \<and> (err \<noteq> None \<longrightarrow>
          err = Some AllLoginAttemptsFailed \<and> conn = None
          \<and> (\<forall>i<length calls. \<not> accepted (attemptAt p w calls i))
          \<and> (0 \<le> Retries p \<longrightarrow>
               (\<forall>credentials\<in>set (Credentials p). \<forall>(user, pass)\<in>set credentials.
                  \<forall>ip\<in>set (IpAddresses p). ip \<noteq> '''' \<longrightarrow> (user, pass, ip) \<in> set calls)))"
  proof cases
    case ret
    from ret(2) have ne: "calls \<noteq> []" and A: "Attempts li = length calls"
      and R: "allRejected p w (butlast calls)"
      and C: "conn = fst (attemptAt p w calls (length calls - 1))"
      and W: "WorkingCredentials li = [(fst (last calls), fst (snd (last calls)))]"
      and I: "accepted (attemptAt p w calls (length calls - 1))
               \<longrightarrow> ActiveIpAddress li = snd (snd (last calls))"
      by (simp_all add: returned_def)
    have last_only: "Suc i = length calls"
      if "i < length calls" "accepted (attemptAt p w calls i)" for i
    proof (rule ccontr)
      assume "Suc i \<noteq> length calls"
      with that(1) have i: "i < length (butlast calls)" by simp
      then have "attemptAt p w (butlast calls) i = attemptAt p w calls i"
        by (simp add: attemptAt_def nth_butlast)
      with R i that(2) show False by (auto simp: allRejected_def)
    qed
    have l: "last calls = calls ! (length calls - 1)"
      using ne by (simp add: last_conv_nth)
    have "Suc i = length calls \<and> err = None \<and> conn = fst (attemptAt p w calls i)
          \<and> WorkingCredentials li = [(fst (calls ! i), fst (snd (calls ! i)))]
          \<and> ActiveIpAddress li = snd (snd (calls ! i))"
      if "i < length calls" "accepted (attemptAt p w calls i)" for i
    proof -
      from last_only [OF that] have "i = length calls - 1" by simp
      with that(2) C W I l ret(1) last_only [OF that] show ?thesis by simp
    qed
    with A ret(1) show ?thesis by simp
  next
    case fail
    from fail(3) have A: "Attempts li = length calls" and R: "allRejected p w calls"
      by (simp_all add: searching_def)
    from R have "\<forall>i<length calls. \<not> accepted (attemptAt p w calls i)"
      by (simp add: allRejected_def)
    moreover from fail(4) have "0 \<le> Retries p \<longrightarrow>
               (\<forall>credentials\<in>set (Credentials p). \<forall>(user, pass)\<in>set credentials.
                  \<forall>ip\<in>set (IpAddresses p). ip \<noteq> '''' \<longrightarrow> (user, pass, ip) \<in> set calls)"
      by blast
    ultimately show ?thesis using A fail(1,2) by simp
  qed
  from N have "\<forall>user pass. (user, pass, []) \<notin> set calls" by force
  with main show ?thesis by blast
qed

lemma effectiveParams_cases:
  "effectiveParams p = p \<or> effectiveParams p = p\<lparr>Retries := 1\<rparr>"
  by (simp add: effectiveParams_def)

lemma noneInactiveFrom_Retries:
  "noneInactiveFrom (p\<lparr>Retries := r\<rparr>) w k calls = noneInactiveFrom p w k calls"
  by (simp add: noneInactiveFrom_def attemptAt_Retries)

text \<open>
  The calls of \<open>Login\<close> are taken in order from the retry matrix, and when it gives
  up without any IP having answered as inactive, they are the whole matrix.
\<close>

lemma Login_calls_matrix:
  assumes "Login_calls p w = ((conn, li, err), calls)"
  shows "subseq calls (retryMatrix (effectiveParams p))
       \<and> (err \<noteq> None \<and> noneInactiveFrom p w 0 calls
            \<longrightarrow> calls = retryMatrix (effectiveParams p))"
proof -
  let ?q = "effectiveParams p"
  let ?s0 = "(\<lparr>FailedCredentials = [], WorkingCredentials = [],
               ActiveIpAddress = '''', Attempts = 0\<rparr>, [])"
  have L: "Login_calls p w =
           (case credentialsLoop ?q w (Credentials ?q) ?s0 of
              Inl r \<Rightarrow> r
            | Inr (loginInfo', calls) \<Rightarrow>
                ((None, loginInfo', Some AllLoginAttemptsFailed), calls))"
    by (simp add: Login_calls_def effectiveParams_def)
  have s0: "searching ?q w ?s0"
    by (simp add: searching_def allRejected_def)
  have nq: "noneInactiveFrom ?q w k cs = noneInactiveFrom p w k cs" for k cs
    using effectiveParams_cases [of p] by (auto simp: noneInactiveFrom_Retries)
  have M: "case credentialsLoop ?q w (Credentials ?q) ?s0 of
           Inl r \<Rightarrow> extendsWithin [] (snd r) (retryMatrix ?q)
         | Inr s' \<Rightarrow>
             extendsWithin [] (snd s') (retryMatrix ?q)
             \<and> Attempts (fst s') = length (snd s')
             \<and> (noneInactiveFrom ?q w 0 (snd s') \<longrightarrow> snd s' = retryMatrix ?q)"
    using credentialsLoop_matrix [where s = ?s0 and p = ?q and w = w and cs = "Credentials ?q"]
    by (auto simp: retryMatrix_def split: sum.splits)
  show ?thesis
  proof (cases "credentialsLoop ?q w (Credentials ?q) ?s0")
    case (Inl x)
    with credentialsLoop_inv [OF s0, of "Credentials ?q"] have "returned ?q w x" by simp
    moreover from Inl L assms have x: "x = ((conn, li, err), calls)" by simp
    ultimately have "err = None" by (simp add: returned_def)
    moreover from M Inl x have "subseq calls (retryMatrix ?q)"
      by (simp add: extendsWithin_def)
    ultimately show ?thesis by simp
  next
    case (Inr s')
    obtain li' calls' where s': "s' = (li', calls')" by (cases s')
    with Inr L assms have e: "calls' = calls" by simp
    from M Inr s' e have "subseq calls (retryMatrix ?q)"
      and "noneInactiveFrom ?q w 0 calls \<longrightarrow> calls = retryMatrix ?q"
      by (simp_all add: extendsWithin_def)
    then show ?thesis by (simp add: nq)
  qed
qed

text \<open>
  Claim C2, as stated, at one credential and the IP list \<open>[10.0.0.1, ""]\<close> (not
  empty) on a network where no host answers: \<open>Login\<close> returns the all-attempts-failed
  error although the pair of the credential and the second IP was never tried.
\<close>

theorem C2_counterexample:
  "Credentials (sampleLogin [''10.0.0.1'', '''']) = [[(''admin'', ''pass'')]]
   \<and> IpAddresses (sampleLogin [''10.0.0.1'', '''']) = [''10.0.0.1'', '''']
   \<and> snd (snd (Login (sampleLogin [''10.0.0.1'', '''']) silentNetwork))
       = Some AllLoginAttemptsFailed
   \<and> (''admin'', ''pass'', '''')
       \<notin> set (snd (Login_calls (sampleLogin [''10.0.0.1'', '''']) silentNetwork))"
  by (simp add: Login_def Login_calls_silent) (simp add: sampleLogin_def)

text \<open>
  Claim C2, amended: \<open>Login\<close> makes its attempts one after the other, in the order
  of the credential \<open>\<times>\<close> IP \<open>\<times>\<close> retry matrix over the IPs that are not the empty
  string (\<open>Retries + 1\<close> attempts a pair, a \<open>Retries\<close> of zero counting as one), and
  counts them. An attempt that succeeds (nil error, IP not flagged inactive) is the
  last one made: \<open>Login\<close> returns on it at once with a nil error, its connection, its
  credential recorded as working and its IP recorded as active. \<open>Login\<close> returns an
  error only as the all-attempts-failed error, with a nil connection, after no attempt
  has succeeded and, for non-negative \<open>Retries\<close>, every (credential, IP) pair with a
  non-empty IP has been tried at least once; the whole matrix has then been tried
  unless some IP answered as an inactive chassis controller, which ends the retries of
  its pair. An empty-string IP is skipped and never tried.
\<close>

theorem C2_login_search:
  assumes "Login_calls p w = ((conn, li, err), calls)"
  shows "Attempts li = length calls
     \<and> subseq calls (retryMatrix (effectiveParams p))
     \<and> (\<forall>i<length calls. accepted (attemptAt p w calls i) \<longrightarrow>
          Suc i = length calls \<and> err = None \<and> conn = fst (attemptAt p w calls i)
          \<and> WorkingCredentials li = [(fst (calls ! i), fst (snd (calls ! i)))]
          \<and> ActiveIpAddress li = snd (snd (calls ! i)))
     \<and> (err \<noteq> None \<longrightarrow>
          err = Some AllLoginAttemptsFailed \<and> conn = None
          \<and> (\<forall>i<length calls. \<not> accepted (attemptAt p w calls i))
          \<and> (0 \<le> Retries p \<longrightarrow>
               (\<forall>credentials\<in>set (Credentials p). \<forall>(user, pass)\<in>set credentials.
                  \<forall>ip\<in>set (IpAddresses p). ip \<noteq> '''' \<longrightarrow> (user, pass, ip) \<in> set calls))
          \<and> ((\<forall>i<length calls. \<not> fst (snd (attemptAt p w calls i)))
               \<longrightarrow> calls = retryMatrix (effectiveParams p)))
     \<and> (\<forall>user pass. (user, pass, '''') \<notin> set calls)"
proof -
  note S = Login_calls_search [OF assms]
  note M = Login_calls_matrix [OF assms]
  have "noneInactiveFrom p w 0 calls"
    if "\<forall>i<length calls. \<not> fst (snd (attemptAt p w calls i))"
    using that by (simp add: noneInactiveFrom_def)
  with M have m: "subseq calls (retryMatrix (effectiveParams p))"
    "err \<noteq> None \<longrightarrow> (\<forall>i<length calls. \<not> fst (snd (attemptAt p w calls i)))
       \<longrightarrow> calls = retryMatrix (effectiveParams p)"
    by blast+
  from S have s1: "Attempts li = length calls"
    and s2: "\<forall>i<length calls. accepted (attemptAt p w calls i) \<longrightarrow>
          Suc i = length calls \<and> err = None \<and> conn = fst (attemptAt p w calls i)
          \<and> WorkingCredentials li = [(fst (calls ! i), fst (snd (calls ! i)))]
          \<and> ActiveIpAddress li = snd (snd (calls ! i))"
    and s3: "err \<noteq> None \<longrightarrow>
          err = Some AllLoginAttemptsFailed \<and> conn = None
          \<and> (\<forall>i<length calls. \<not> accepted (attemptAt p w calls i))
          \<and> (0 \<le> Retries p \<longrightarrow>
               (\<forall>credentials\<in>set (Credentials p). \<forall>(user, pass)\<in>set credentials.
                  \<forall>ip\<in>set (IpAddresses p). ip \<noteq> '''' \<longrightarrow> (user, pass, ip) \<in> set calls))"
    and s4: "\<forall>user pass. (user, pass, '''') \<notin> set calls"
    by blast+
  show ?thesis
    apply (intro conjI)
         apply (rule s1)
        apply (rule m(1))
       apply (rule s2)
      apply (use s3 m(2) in blast)
     apply (rule s4)
    done
qed
lemma retryMatrix_sample:
  "retryMatrix (effectiveParams (sampleLogin [''10.0.0.1'', '''']))
     = [(''admin'', ''pass'', ''10.0.0.1''), (''admin'', ''pass'', ''10.0.0.1'')]"
  by (simp add: retryMatrix_def effectiveParams_def sampleLogin_def credentialRows_def
      entryRows_def pairRow_def numeral_2_eq_2)

theorem C2_login_search_witness:
  "accepted (attemptAt (sampleLogin [''10.0.0.1'', ''10.0.0.2'']) (chassisNetwork ''10.0.0.2'')
       [(''admin'', ''pass'', ''10.0.0.1''), (''admin'', ''pass'', ''10.0.0.2'')] (Suc 0))
   \<and> Login (sampleLogin [''10.0.0.1'', ''10.0.0.2'']) (chassisNetwork ''10.0.0.2'')
      = (Some (sampleChassis True),
         \<lparr>FailedCredentials = [], WorkingCredentials = [(''admin'', ''pass'')],
          ActiveIpAddress = ''10.0.0.2'', Attempts = 2\<rparr>, None)
   \<and> snd (snd (Login (sampleLogin [''10.0.0.1'', '''']) silentNetwork))
      = Some AllLoginAttemptsFailed
   \<and> (''admin'', ''pass'', ''10.0.0.1'')
      \<in> set (snd (Login_calls (sampleLogin [''10.0.0.1'', '''']) silentNetwork))
   \<and> snd (Login_calls (sampleLogin [''10.0.0.1'', '''']) silentNetwork)
      = retryMatrix (effectiveParams (sampleLogin [''10.0.0.1'', '''']))"
proof -
  let ?pA = "sampleLogin [''10.0.0.1'', ''10.0.0.2'']" and ?wA = "chassisNetwork ''10.0.0.2''"
  let ?cA = "[(''admin'', ''pass'', ''10.0.0.1''), (''admin'', ''pass'', ''10.0.0.2'')]"
  let ?pB = "sampleLogin [''10.0.0.1'', '''']"
  let ?cB = "[(''admin'', ''pass'', ''10.0.0.1''), (''admin'', ''pass'', ''10.0.0.1'')]"
  have acc: "accepted (attemptAt ?pA ?wA ?cA (Suc 0))"
    by (simp add: accepted_def attemptAt_def attemptLogin_def scan_chassisNetwork sampleLogin_def
        sampleChassis_def)
  have i: "Suc 0 < length ?cA" by simp
  note A = C2_login_search [OF Login_calls_two_chassis]
  note A3 = A [THEN conjunct2, THEN conjunct2, THEN conjunct1, rule_format, OF i acc]
  from A3 have a: "ActiveIpAddress \<lparr>FailedCredentials = [],
                     WorkingCredentials = [(''admin'', ''pass'')],
                     ActiveIpAddress = ''10.0.0.2'', Attempts = 2\<rparr> = snd (snd (?cA ! Suc 0))"
    by (elim conjE)
  note B = C2_login_search [OF Login_calls_silent]
  have e: "Some AllLoginAttemptsFailed \<noteq> (None :: error option)" by simp
  have r: "0 \<le> Retries ?pB" by (simp add: sampleLogin_def)
  have ni: "\<forall>i<length ?cB. \<not> fst (snd (attemptAt ?pB silentNetwork ?cB i))"
    by (simp add: attemptAt_def attemptLogin_def scan_silentNetwork less_Suc_eq)
  note B4 = B [THEN conjunct2, THEN conjunct2, THEN conjunct2, THEN conjunct1, THEN mp, OF e]
  note cover = B4 [THEN conjunct2, THEN conjunct2, THEN conjunct2, THEN conjunct1, THEN mp, OF r]
  note whole = B4 [THEN conjunct2, THEN conjunct2, THEN conjunct2, THEN conjunct2, THEN mp, OF ni]
  from cover have b: "(''admin'', ''pass'', ''10.0.0.1'') \<in> set ?cB"
    by (simp add: sampleLogin_def)
  from acc a b whole show ?thesis
    by (simp add: Login_def Login_calls_two_chassis Login_calls_silent)
qed

text \<open>
  The last-resort acceptance: one IP, answered by an inactive chassis controller that
  passes the credential check.
\<close>

lemma Login_last_resort:
  assumes "IpAddresses p = [ip]" and "ip \<noteq> ''''"
    and "Credentials p = ((user, pass) # entries) # cs"
    and "CheckCredential p" and "0 \<le> Retries p"
    and "\<forall>n. \<exists>c. ScanAndConnect (w n ip user pass) [] = (Some c, None)
               \<and> chassisController False c"
  shows "\<exists>c. Login p w =
              (Some c, \<lparr>FailedCredentials = [], WorkingCredentials = [(user, pass)],
                        ActiveIpAddress = '''', Attempts = 1\<rparr>, None)
             \<and> chassisController False c"
proof -
  let ?li0 = "\<lparr>FailedCredentials = [], WorkingCredentials = [],
               ActiveIpAddress = '''', Attempts = 0\<rparr>"
  obtain q where ips: "IpAddresses q = IpAddresses p"
    and cq: "CheckCredential q = CheckCredential p"
    and r: "0 \<le> Retries p \<longrightarrow> 0 \<le> Retries q"
    and L: "Login_calls p w =
           (case credentialsLoop q w (Credentials p) (?li0, []) of
              Inl r \<Rightarrow> r
            | Inr (loginInfo', calls) \<Rightarrow>
                ((None, loginInfo', Some AllLoginAttemptsFailed), calls))"
    by (rule Login_calls_unfold [of p w]) blast
  from assms(6) obtain c where
    c: "ScanAndConnect (w (Suc 0) ip user pass) [] = (Some c, None)" "chassisController False c"
    by blast
  have t0: "0 \<le> Retries q" using r assms(5) by simp
  have cq': "CheckCredential q" using cq assms(4) by simp
  have al: "attemptLogin q (w (Suc (Attempts ?li0)) ip user pass) ip user pass
              = (Some c, True, None)"
    using attemptLogin_chassis [OF cq' c] by simp
  have "retryLoop q w user pass ip 0 (?li0, [])
          = Inl ((Some c, \<lparr>FailedCredentials = [], WorkingCredentials = [(user, pass)],
                        ActiveIpAddress = '''', Attempts = 1\<rparr>, None), [(user, pass, ip)])"
    using retryLoop_step [where w = w and calls = "[]", OF t0 al] ips assms(1) by simp
  then show ?thesis
    using L c(2) ips assms(1,2,3) by (simp add: Login_def)
qed

text \<open>
  Claim C4, as stated, at a chassis asset with the IPs 10.0.0.1 and 10.0.0.2 of which
  only the second controller is active, with a valid credential, when \<open>Login\<close> runs
  with \<open>CheckCredential\<close> unset: \<open>attemptLogin\<close> returns before the credential and
  active-member checks, and \<open>Login\<close> succeeds on its first attempt with
  \<open>ActiveIpAddress\<close> equal to the first IP.
\<close>

theorem C4_counterexample:
  "IpAddresses ((sampleLogin [''10.0.0.1'', ''10.0.0.2''])\<lparr>CheckCredential := False\<rparr>)
     = [''10.0.0.1'', ''10.0.0.2'']
   \<and> Login ((sampleLogin [''10.0.0.1'', ''10.0.0.2''])\<lparr>CheckCredential := False\<rparr>)
        (chassisNetwork ''10.0.0.2'')
      = (Some (sampleChassis False),
         \<lparr>FailedCredentials = [], WorkingCredentials = [(''admin'', ''pass'')],
          ActiveIpAddress = ''10.0.0.1'', Attempts = 1\<rparr>, None)"
  by (simp add: Login_def Login_calls_def sampleLogin_def retryLoop.simps attemptLogin_def
      scan_chassisNetwork Let_def)

text \<open>
  Claim C4, amended: for a chassis asset with two IPs (non-empty strings) where the
  controller at the first IP passes the credential check but is not active and the
  controller at the second IP passes it and is active, \<open>Login\<close> run with
  \<open>CheckCredential\<close> set and \<open>Retries\<close> not negative returns that second
  controller's connection with a nil error and \<open>ActiveIpAddress\<close> equal to the
  second IP, after two attempts, and the failed-credentials list is empty: the first
  IP's answer was not appended to it.
\<close>

theorem C4_second_ip_active:
  assumes "IpAddresses p = [ip1, ip2]" and "ip1 \<noteq> ''''" and "ip2 \<noteq> ''''"
    and "Credentials p = ((user, pass) # entries) # cs"
    and "CheckCredential p" and "0 \<le> Retries p"
    and "\<forall>n. \<exists>c. ScanAndConnect (w n ip1 user pass) [] = (Some c, None)
               \<and> chassisController False c"
    and "\<forall>n. \<exists>c. ScanAndConnect (w n ip2 user pass) [] = (Some c, None)
               \<and> chassisController True c"
  shows "\<exists>c li. Login p w = (Some c, li, None) \<and> chassisController True c
           \<and> ActiveIpAddress li = ip2 \<and> WorkingCredentials li = [(user, pass)]
           \<and> FailedCredentials li = [] \<and> Attempts li = 2"
proof -
  let ?li0 = "\<lparr>FailedCredentials = [], WorkingCredentials = [],
               ActiveIpAddress = '''', Attempts = 0\<rparr>"
  let ?li1 = "\<lparr>FailedCredentials = [], WorkingCredentials = [],
               ActiveIpAddress = '''', Attempts = Suc 0\<rparr>"
  obtain q where ips: "IpAddresses q = IpAddresses p"
    and cq: "CheckCredential q = CheckCredential p"
    and r: "0 \<le> Retries p \<longrightarrow> 0 \<le> Retries q"
    and L: "Login_calls p w =
           (case credentialsLoop q w (Credentials p) (?li0, []) of
              Inl r \<Rightarrow> r
            | Inr (loginInfo', calls) \<Rightarrow>
                ((None, loginInfo', Some AllLoginAttemptsFailed), calls))"
    by (rule Login_calls_unfold [of p w]) blast
  from assms(7) obtain c1 where
    c1: "ScanAndConnect (w (Suc 0) ip1 user pass) [] = (Some c1, None)"
        "chassisController False c1"
    by blast
  from assms(8) obtain c2 where
    c2: "ScanAndConnect (w (Suc (Suc 0)) ip2 user pass) [] = (Some c2, None)"
        "chassisController True c2"
    by blast
  have t0: "0 \<le> Retries q" using r assms(6) by simp
  have cq': "CheckCredential q" using cq assms(5) by simp
  have al1: "attemptLogin q (w (Suc (Attempts ?li0)) ip1 user pass) ip1 user pass
               = (Some c1, True, None)"
    using attemptLogin_chassis [OF cq' c1] by simp
  have al2: "attemptLogin q (w (Suc (Attempts ?li1)) ip2 user pass) ip2 user pass
               = (Some c2, False, None)"
    using attemptLogin_chassis [OF cq' c2] by simp
  have r1: "retryLoop q w user pass ip1 0 (?li0, []) = Inr (?li1, [(user, pass, ip1)])"
    using retryLoop_step [where w = w and calls = "[]", OF t0 al1] ips assms(1) by simp
  have r2: "retryLoop q w user pass ip2 0 (?li1, [(user, pass, ip1)])
          = Inl ((Some c2, \<lparr>FailedCredentials = [], WorkingCredentials = [(user, pass)],
                        ActiveIpAddress = ip2, Attempts = 2\<rparr>, None),
                 [(user, pass, ip1), (user, pass, ip2)])"
    using retryLoop_step [where w = w and calls = "[(user, pass, ip1)]", OF t0 al2] by simp
  from r1 r2 show ?thesis
    using L c2(2) ips assms(1,2,3,4) by (simp add: Login_def)
qed

lemma sampleLogin_simps:
  "IpAddresses (sampleLogin ips) = ips"
  "Credentials (sampleLogin ips) = [[(''admin'', ''pass'')]]"
  "CheckCredential (sampleLogin ips)"
  "Retries (sampleLogin ips) = 1"
  by (simp_all add: sampleLogin_def)

lemma chassisNetwork_answers:
  "\<forall>n. \<exists>c. ScanAndConnect (chassisNetwork a n ip user pass) [] = (Some c, None)
          \<and> chassisController (ip = a) c"
  by (simp add: scan_chassisNetwork chassisController_def sampleChassis_def)

theorem C4_second_ip_active_witness:
  "snd (snd (Login (sampleLogin [''10.0.0.1'', ''10.0.0.2'']) (chassisNetwork ''10.0.0.2'')))
     = None
   \<and> ActiveIpAddress
       (fst (snd (Login (sampleLogin [''10.0.0.1'', ''10.0.0.2'']) (chassisNetwork ''10.0.0.2''))))
     = ''10.0.0.2''
   \<and> FailedCredentials
       (fst (snd (Login (sampleLogin [''10.0.0.1'', ''10.0.0.2'']) (chassisNetwork ''10.0.0.2''))))
     = []"
proof -
  let ?p = "sampleLogin [''10.0.0.1'', ''10.0.0.2'']" and ?w = "chassisNetwork ''10.0.0.2''"
  have h1: "IpAddresses ?p = [''10.0.0.1'', ''10.0.0.2'']" by (simp add: sampleLogin_simps)
  have h2: "''10.0.0.1'' \<noteq> ''''" and h3: "''10.0.0.2'' \<noteq> ''''" by simp_all
  have h4: "Credentials ?p = ((''admin'', ''pass'') # []) # []" by (simp add: sampleLogin_simps)
  have h5: "CheckCredential ?p" and h6: "0 \<le> Retries ?p" by (simp_all add: sampleLogin_simps)
  have h7: "\<forall>n. \<exists>c. ScanAndConnect (?w n ''10.0.0.1'' ''admin'' ''pass'') [] = (Some c, None)
               \<and> chassisController False c"
    using chassisNetwork_answers [of "''10.0.0.2''" "''10.0.0.1''" "''admin''" "''pass''"] by simp
  have h8: "\<forall>n. \<exists>c. ScanAndConnect (?w n ''10.0.0.2'' ''admin'' ''pass'') [] = (Some c, None)
               \<and> chassisController True c"
    using chassisNetwork_answers [of "''10.0.0.2''" "''10.0.0.2''" "''admin''" "''pass''"] by simp
  from C4_second_ip_active [where w = ?w, OF h1 h2 h3 h4 h5 h6 h7 h8]
  obtain c li where "Login ?p ?w = (Some c, li, None)" "ActiveIpAddress li = ''10.0.0.2''"
      "FailedCredentials li = []"
    by blast
  then show ?thesis by simp
qed



text \<open>
  Claim C10: when \<open>configureAsset\<close> logs in to an asset with a single IP whose
  chassis controller passes the credential check but is not active, \<open>Login\<close>
  succeeds as a last resort and its \<open>LoginInfo\<close> has \<open>WorkingCredentials\<close> set but
  \<open>ActiveIpAddress\<close> left as the empty string; \<open>configureAsset\<close> then assigns that
  empty string to the asset's \<open>IPAddress\<close>, whatever the field held before.
\<close>

theorem C10_last_resort_leaves_ip_empty:
  assumes "\<not> DryRun (Config b)" and "IPAddresses a = [ip]" and "ip \<noteq> ''''"
    and "ConfigCredentials (Config b) = ((user, pass) # entries) # cs"
    and "\<forall>n. \<exists>c. ScanAndConnect (network env n ip user pass) [] = (Some c, None)
               \<and> chassisController False c"
  shows "(\<exists>c li. Login \<lparr>IpAddresses = IPAddresses a,
                         Credentials = ConfigCredentials (Config b),
                         CheckCredential = True, Retries = 1\<rparr> (network env)
                   = (Some c, li, None)
                 \<and> WorkingCredentials li = [(user, pass)] \<and> ActiveIpAddress li = '''')
         \<and> IPAddress (fst (snd (configureAsset b env cfgBytes a))) = ''''"
proof -
  let ?p = "\<lparr>IpAddresses = IPAddresses a, Credentials = ConfigCredentials (Config b),
             CheckCredential = True, Retries = 1\<rparr>"
  have "\<exists>c. Login ?p (network env) =
              (Some c, \<lparr>FailedCredentials = [], WorkingCredentials = [(user, pass)],
                        ActiveIpAddress = '''', Attempts = 1\<rparr>, None)
             \<and> chassisController False c"
    by (rule Login_last_resort [where ip = ip and entries = entries and cs = cs
          and w = "network env"])
       (simp_all add: assms)
  then obtain c where
    l: "Login ?p (network env) =
              (Some c, \<lparr>FailedCredentials = [], WorkingCredentials = [(user, pass)],
                        ActiveIpAddress = '''', Attempts = 1\<rparr>, None)"
    and c: "chassisController False c"
    by blast
  from c have d: "devType c = BmcChassis" by (simp add: chassisController_def)
  have "IPAddress (fst (snd (configureAsset b env cfgBytes a))) = ''''"
    using assms(1) l d by (simp add: configureAsset_def Let_def split: option.splits)
  with l show ?thesis by simp
qed

theorem C10_last_resort_leaves_ip_empty_witness:
  "IPAddress (sampleAsset\<lparr>IPAddress := ''10.0.0.1''\<rparr>) = ''10.0.0.1''
   \<and> fst (configureAsset \<lparr>Config = sampleParams [] True, interrupt = False\<rparr>
            (sampleEnv\<lparr>network := chassisNetwork ''10.0.0.2'',
                       LoadConfigResources := (\<lambda>cfgBytes a. Some sampleConfig)\<rparr>)
            ''config'' (sampleAsset\<lparr>IPAddress := ''10.0.0.1''\<rparr>)) = None
   \<and> IPAddress (fst (snd (configureAsset \<lparr>Config = sampleParams [] True, interrupt = False\<rparr>
            (sampleEnv\<lparr>network := chassisNetwork ''10.0.0.2'',
                       LoadConfigResources := (\<lambda>cfgBytes a. Some sampleConfig)\<rparr>)
            ''config'' (sampleAsset\<lparr>IPAddress := ''10.0.0.1''\<rparr>)))) = ''''"
proof -
  let ?b = "\<lparr>Config = sampleParams [] True, interrupt = False\<rparr>"
  let ?env = "sampleEnv\<lparr>network := chassisNetwork ''10.0.0.2'',
                       LoadConfigResources := (\<lambda>cfgBytes a. Some sampleConfig)\<rparr>"
  let ?a = "sampleAsset\<lparr>IPAddress := ''10.0.0.1''\<rparr>"
  have h1: "\<not> DryRun (Config ?b)" by (simp add: sampleParams_def)
  have h2: "IPAddresses ?a = [''10.0.0.1'']" by (simp add: sampleAsset_def)
  have h3: "''10.0.0.1'' \<noteq> ''''" by simp
  have h4: "ConfigCredentials (Config ?b) = ((''admin'', ''pass'') # []) # []"
    by (simp add: sampleParams_def)
  have h5: "\<forall>n. \<exists>c. ScanAndConnect (network ?env n ''10.0.0.1'' ''admin'' ''pass'') []
                       = (Some c, None) \<and> chassisController False c"
    using chassisNetwork_answers [of "''10.0.0.2''" "''10.0.0.1''" "''admin''" "''pass''"] by simp
  from C10_last_resort_leaves_ip_empty [where env = ?env and cfgBytes = "''config''", OF h1 h2 h3 h4 h5]
  have ip: "IPAddress (fst (snd (configureAsset ?b ?env ''config'' ?a))) = ''''" by blast
  have "fst (configureAsset ?b ?env ''config'' ?a) = None"
    by (simp add: configureAsset_def Let_def sampleParams_def sampleAsset_def Login_def
        Login_calls_def retryLoop.simps attemptLogin_def scan_chassisNetwork sampleChassis_def)
  with ip show ?thesis by simp
qed

end
